theory Spec2Isabelle
  imports Complex_Main
begin

section \<open>JavaScript values used by the zone manager\<close>

text \<open>
  The zone manager is a browser component written in TypeScript.  Its own logic is small: it
  keeps a list of zones, converts them to plain records, and reads and writes them through
  \<^verbatim>\<open>localStorage\<close>.  Everything else is a call into the language runtime or the map SDK.
  This section fixes how those runtime values are represented.

  A JavaScript number is a finite value, \<^verbatim>\<open>NaN\<close> or one of the two infinities.  Finite values
  are represented by reals: rounding to the nearest double, overflow to infinity and the sign
  of zero are not represented.
\<close>

datatype jsnum = Num real | NaN | PosInfinity | NegInfinity

definition isNaN :: "jsnum \<Rightarrow> bool" where
  "isNaN x = (x = NaN)"

definition is_finite :: "jsnum \<Rightarrow> bool" where
  "is_finite x = (case x of Num r \<Rightarrow> True | _ \<Rightarrow> False)"

fun js_neg :: "jsnum \<Rightarrow> jsnum" where
  "js_neg (Num r) = Num (- r)"
| "js_neg NaN = NaN"
| "js_neg PosInfinity = NegInfinity"
| "js_neg NegInfinity = PosInfinity"

fun js_add :: "jsnum \<Rightarrow> jsnum \<Rightarrow> jsnum" where
  "js_add (Num a) (Num b) = Num (a + b)"
| "js_add NaN y = NaN"
| "js_add x NaN = NaN"
| "js_add PosInfinity NegInfinity = NaN"
| "js_add NegInfinity PosInfinity = NaN"
| "js_add PosInfinity y = PosInfinity"
| "js_add NegInfinity y = NegInfinity"
| "js_add x PosInfinity = PosInfinity"
| "js_add x NegInfinity = NegInfinity"

definition js_sub :: "jsnum \<Rightarrow> jsnum \<Rightarrow> jsnum" where
  "js_sub x y = js_add x (js_neg y)"

subsection \<open>Strings\<close>

text \<open>
  Strings are lists of characters.  \<^verbatim>\<open>String.prototype.trim\<close> removes white space and line
  terminators at both ends; of these, the model knows the ASCII ones (tab, line feed,
  vertical tab, form feed, carriage return and space).
\<close>

definition is_space :: "char \<Rightarrow> bool" where
  "is_space c = (c \<in> set [CHR 0x09, CHR 0x0A, CHR 0x0B, CHR 0x0C, CHR 0x0D, CHR 0x20])"

definition trim :: "string \<Rightarrow> string" where
  "trim s = rev (dropWhile is_space (rev (dropWhile is_space s)))"

text \<open>\<^verbatim>\<open>s.split(c)\<close> for a one-character separator: the result is never empty.\<close>

fun split_on :: "char \<Rightarrow> string \<Rightarrow> string list" where
  "split_on c [] = [Nil]"
| "split_on c (x # xs) =
     (if x = c then [] # split_on c xs
      else (case split_on c xs of
              [] \<Rightarrow> [x # Nil]
            | w # ws \<Rightarrow> (x # w) # ws))"

definition is_digit :: "char \<Rightarrow> bool" where
  "is_digit c = (c \<in> set ''0123456789'')"

definition digit_val :: "char \<Rightarrow> nat" where
  "digit_val c = of_char c - 48"

definition digit_char :: "nat \<Rightarrow> char" where
  "digit_char d = ''0123456789'' ! d"

text \<open>The value of a string of decimal digits, as \<^verbatim>\<open>parseInt(ds, 10)\<close> reads it.\<close>

definition parseInt10 :: "string \<Rightarrow> nat" where
  "parseInt10 ds = foldl (\<lambda>a c. 10 * a + digit_val c) 0 ds"

text \<open>The decimal representation of a natural number, as a template literal prints it.\<close>

fun show_nat :: "nat \<Rightarrow> string" where
  "show_nat n = (if n < 10 then [digit_char n] else show_nat (n div 10) @ [digit_char (n mod 10)])"

declare show_nat.simps [simp del]

subsection \<open>\<^verbatim>\<open>parseFloat\<close>\<close>

text \<open>
  \<^verbatim>\<open>parseFloat\<close> skips leading white space and reads the longest prefix that is a decimal
  literal: an optional sign, then \<^verbatim>\<open>Infinity\<close> or digits with an optional fraction and an
  optional exponent.  Whatever follows the literal is ignored.  Without such a prefix the
  result is \<^verbatim>\<open>NaN\<close>.
\<close>

definition starts_with :: "string \<Rightarrow> string \<Rightarrow> bool" where
  "starts_with p s = (take (length p) s = p)"

definition exponent_part :: "string \<Rightarrow> int" where
  "exponent_part r =
     (case r of
        [] \<Rightarrow> 0
      | e # r1 \<Rightarrow>
          if e = CHR ''e'' \<or> e = CHR ''E'' then
            (case r1 of
               [] \<Rightarrow> 0
             | s # r2 \<Rightarrow>
                 if s = CHR ''-'' then - int (parseInt10 (takeWhile is_digit r2))
                 else if s = CHR ''+'' then int (parseInt10 (takeWhile is_digit r2))
                 else int (parseInt10 (takeWhile is_digit r1)))
          else 0)"

definition scale10 :: "real \<Rightarrow> int \<Rightarrow> real" where
  "scale10 x e = (if 0 \<le> e then x * 10 ^ nat e else x / 10 ^ nat (- e))"

definition unsigned_literal :: "string \<Rightarrow> jsnum" where
  "unsigned_literal s =
     (if starts_with ''Infinity'' s then PosInfinity
      else
        let intd = takeWhile is_digit s;
            r1 = dropWhile is_digit s;
            fracd = (if starts_with ''.'' r1 then takeWhile is_digit (tl r1) else []);
            r2 = (if starts_with ''.'' r1 then dropWhile is_digit (tl r1) else r1)
        in if intd = [] \<and> fracd = [] then NaN
           else Num (scale10 (real (parseInt10 intd) + real (parseInt10 fracd) / 10 ^ length fracd)
                       (exponent_part r2)))"

definition parseFloat :: "string \<Rightarrow> jsnum" where
  "parseFloat s =
     (case dropWhile is_space s of
        [] \<Rightarrow> NaN
      | c # r \<Rightarrow>
          if c = CHR ''-'' then js_neg (unsigned_literal r)
          else if c = CHR ''+'' then unsigned_literal r
          else unsigned_literal (c # r))"

section \<open>Zones\<close>

text \<open>
  \<^verbatim>\<open>src/types/zone.ts\<close> declares two interfaces with the same fields.  A \<^verbatim>\<open>Zone\<close> holds the
  vertices as \<^verbatim>\<open>google.maps.LatLng\<close> objects, a \<^verbatim>\<open>ZoneData\<close> as plain \<^verbatim>\<open>{lat, lng}\<close> pairs.
  The component also hangs the zone's polygon on the zone object (\<^verbatim>\<open>(zone as any).polygon\<close>);
  the polygon is a mutable SDK object, so the zone holds a handle into a table of polygons.

  A \<^verbatim>\<open>LatLng\<close> is represented by the two numbers it was constructed from; the SDK's own
  clamping of latitudes and wrapping of longitudes is not represented.
\<close>

datatype LatLng = LatLng (lat_of: jsnum) (lng_of: jsnum)

record LatLngLiteral =
  lat :: jsnum
  lng :: jsnum

record 'c zone_fields =
  id' :: string
  name :: string
  description :: string
  coordinates :: "'c list"
  color :: string
  createdAt :: string
  updatedAt :: string

type_synonym ZoneData = "LatLngLiteral zone_fields"

record Zone = "LatLng zone_fields" +
  polygon :: "nat option"


section \<open>Runtime values and the browser store\<close>

text \<open>
  What the component hands to \<^verbatim>\<open>JSON.stringify\<close> and gets back from \<^verbatim>\<open>JSON.parse\<close> are
  untyped runtime values; the TypeScript interfaces are not checked when the program runs.
  An object is the list of its properties in insertion order.
\<close>

datatype jsval =
    VNull
  | VBool bool
  | VNum jsnum
  | VStr string
  | VArr "jsval list"
  | VObj "(string \<times> jsval) list"

datatype error = TypeError | ReferenceError | InvalidCoordinatePair string | GeocodingFailed

text \<open>
  \<^verbatim>\<open>JSON.stringify\<close> writes a number that is not finite as \<^verbatim>\<open>null\<close>; every other value of
  this type is written as it is.  \<open>jsonify v\<close> is the value that the text written for \<open>v\<close>
  denotes.
\<close>

primrec jsonify :: "jsval \<Rightarrow> jsval" where
  "jsonify VNull = VNull"
| "jsonify (VBool b) = VBool b"
| "jsonify (VNum n) = (if is_finite n then VNum n else VNull)"
| "jsonify (VStr s) = VStr s"
| "jsonify (VArr vs) = VArr (map jsonify vs)"
| "jsonify (VObj kvs) = VObj (map (map_prod (\<lambda>k. k) jsonify) kvs)"

text \<open>
  The strings held by \<^verbatim>\<open>localStorage\<close> are of two kinds: a JSON text, represented by the value
  it denotes, and a string that \<^verbatim>\<open>JSON.parse\<close> rejects with a syntax error, represented by
  its characters.  The empty string is of the second kind, and it is the only string that a
  condition takes for false.
\<close>

datatype item = JsonText jsval | Malformed string

definition JSON_stringify :: "jsval \<Rightarrow> item" where
  "JSON_stringify v = JsonText (jsonify v)"

definition JSON_parse :: "item \<Rightarrow> jsval option" where
  "JSON_parse t = (case t of JsonText v \<Rightarrow> Some v | Malformed s \<Rightarrow> None)"

definition truthy_text :: "item \<Rightarrow> bool" where
  "truthy_text t = (t \<noteq> Malformed [])"

text \<open>
  The part of the browser that the program reads and writes: the store, the messages sent
  to \<^verbatim>\<open>console.error\<close> and to \<^verbatim>\<open>alert\<close>, and the clock read by \<^verbatim>\<open>Date.now()\<close>, in
  milliseconds.
\<close>

record browser =
  localStorage :: "string \<rightharpoonup> item"
  console :: "string list"
  alerts :: "string list"
  clock :: nat

subsection \<open>\<^verbatim>\<open>utils/storage\<close>\<close>

definition STORAGE_KEY :: string where
  "STORAGE_KEY = ''map-zones''"

text \<open>
  \<^verbatim>\<open>localStorage.setItem\<close> either stores the text or throws (the quota is exceeded, or the
  store is disabled).  Which of the two happens is decided by the browser; it is the first
  argument of \<open>saveZones\<close>, \<open>True\<close> when the call returns.  The \<^verbatim>\<open>catch\<close> clause logs the
  error and nothing else.
\<close>

definition saveZones :: "bool \<Rightarrow> jsval \<Rightarrow> ('a browser_scheme) \<Rightarrow> ('a browser_scheme)" where
  "saveZones setItem_returns zones b =
     (if setItem_returns
      then b\<lparr>localStorage := (localStorage b)(STORAGE_KEY \<mapsto> JSON_stringify zones)\<rparr>
      else b\<lparr>console := console b @ [''Error saving zones:'']\<rparr>)"

definition loadZones :: "('a browser_scheme) \<Rightarrow> jsval \<times> ('a browser_scheme)" where
  "loadZones b =
     (case localStorage b STORAGE_KEY of
        None \<Rightarrow> (VArr [], b)
      | Some stored \<Rightarrow>
          if truthy_text stored then
            (case JSON_parse stored of
               Some v \<Rightarrow> (v, b)
             | None \<Rightarrow> (VArr [], b\<lparr>console := console b @ [''Error loading zones:'']\<rparr>))
          else (VArr [], b))"

text \<open>
  \<^verbatim>\<open>zone.id !== zoneId\<close> on a runtime value: reading a property of \<^verbatim>\<open>null\<close> throws, an object
  yields the property or \<^verbatim>\<open>undefined\<close>, and any other value yields \<^verbatim>\<open>undefined\<close>.
\<close>

fun id_differs :: "string \<Rightarrow> jsval \<Rightarrow> error + bool" where
  "id_differs zoneId VNull = Inl TypeError"
| "id_differs zoneId (VObj kvs) = Inr (map_of kvs ''id'' \<noteq> Some (VStr zoneId))"
| "id_differs zoneId v = Inr True"

fun filter_zones :: "string \<Rightarrow> jsval list \<Rightarrow> error + jsval list" where
  "filter_zones zoneId [] = Inr []"
| "filter_zones zoneId (zone # rest) =
     (case id_differs zoneId zone of
        Inl e \<Rightarrow> Inl e
      | Inr keep \<Rightarrow>
          (case filter_zones zoneId rest of
             Inl e \<Rightarrow> Inl e
           | Inr rest' \<Rightarrow> Inr (if keep then zone # rest' else rest')))"

text \<open>
  \<^verbatim>\<open>deleteZone\<close> is not guarded: when the stored value is not an array, or holds \<^verbatim>\<open>null\<close>, the
  type error leaves the function and nothing is written.
\<close>

definition deleteZone ::
  "bool \<Rightarrow> string \<Rightarrow> ('a browser_scheme) \<Rightarrow> (error + jsval) \<times> ('a browser_scheme)" where
  "deleteZone setItem_returns zoneId b =
     (let (zones, b1) = loadZones b in
      case zones of
        VArr zs \<Rightarrow>
          (case filter_zones zoneId zs of
             Inl e \<Rightarrow> (Inl e, b1)
           | Inr updatedZones \<Rightarrow>
               (Inr (VArr updatedZones), saveZones setItem_returns (VArr updatedZones) b1))
      | _ \<Rightarrow> (Inl TypeError, b1))"

subsection \<open>Zone records as runtime values\<close>

text \<open>
  The object that the component builds for a zone before saving, with the properties in the
  order of the object literal, and the reading of a runtime value as a \<^verbatim>\<open>ZoneData\<close>: it
  succeeds when the properties that the interface declares are there with their types.
\<close>

definition encode_coord :: "LatLngLiteral \<Rightarrow> jsval" where
  "encode_coord c = VObj [(''lat'', VNum (lat c)), (''lng'', VNum (lng c))]"

definition encode_zone :: "ZoneData \<Rightarrow> jsval" where
  "encode_zone z =
     VObj [(''id'', VStr (id' z)),
           (''name'', VStr (name z)),
           (''description'', VStr (description z)),
           (''color'', VStr (color z)),
           (''coordinates'', VArr (map encode_coord (coordinates z))),
           (''createdAt'', VStr (createdAt z)),
           (''updatedAt'', VStr (updatedAt z))]"

definition encode_zones :: "ZoneData list \<Rightarrow> jsval" where
  "encode_zones zs = VArr (map encode_zone zs)"

definition get_str :: "(string \<times> jsval) list \<Rightarrow> string \<Rightarrow> string option" where
  "get_str kvs k = (case map_of kvs k of Some (VStr s) \<Rightarrow> Some s | _ \<Rightarrow> None)"

definition get_num :: "(string \<times> jsval) list \<Rightarrow> string \<Rightarrow> jsnum option" where
  "get_num kvs k = (case map_of kvs k of Some (VNum n) \<Rightarrow> Some n | _ \<Rightarrow> None)"

definition decode_coord :: "jsval \<Rightarrow> LatLngLiteral option" where
  "decode_coord v =
     (case v of
        VObj kvs \<Rightarrow>
          (case (get_num kvs ''lat'', get_num kvs ''lng'') of
             (Some a, Some b) \<Rightarrow> Some \<lparr>lat = a, lng = b\<rparr>
           | _ \<Rightarrow> None)
      | _ \<Rightarrow> None)"

definition get_coords :: "(string \<times> jsval) list \<Rightarrow> LatLngLiteral list option" where
  "get_coords kvs =
     (case map_of kvs ''coordinates'' of
        Some (VArr cs) \<Rightarrow> those (map decode_coord cs)
      | _ \<Rightarrow> None)"

definition decode_zone :: "jsval \<Rightarrow> ZoneData option" where
  "decode_zone v =
     (case v of
        VObj kvs \<Rightarrow>
          (case (get_str kvs ''id'', get_str kvs ''name'', get_str kvs ''description'',
                 get_coords kvs, get_str kvs ''color'',
                 get_str kvs ''createdAt'', get_str kvs ''updatedAt'') of
             (Some i, Some n, Some d, Some cs, Some c, Some ca, Some ua) \<Rightarrow>
               Some \<lparr>id' = i, name = n, description = d, coordinates = cs, color = c,
                     createdAt = ca, updatedAt = ua\<rparr>
           | _ \<Rightarrow> None)
      | _ \<Rightarrow> None)"

definition decode_zones :: "jsval \<Rightarrow> ZoneData list option" where
  "decode_zones v = (case v of VArr vs \<Rightarrow> those (map decode_zone vs) | _ \<Rightarrow> None)"

text \<open>A valid record, in the sense of the round-trip property: its numbers are finite.\<close>

definition finite_coords :: "ZoneData \<Rightarrow> bool" where
  "finite_coords z = list_all (\<lambda>c. is_finite (lat c) \<and> is_finite (lng c)) (coordinates z)"


section \<open>The zone manager component\<close>

subsection \<open>State\<close>

text \<open>
  A polygon is an object of the map SDK.  The component sets its colours, its editability
  and whether it is on the map, and registers listeners on it once, when it is created;
  the listeners are closures over the zone passed to \<^verbatim>\<open>addPolygonListeners\<close> and over the
  value that \<^verbatim>\<open>editingZoneId\<close> had in the render that supplied the function.  Dragging the
  vertices of an editable polygon is done by the SDK; the program has no listener for it,
  and it is not represented.
\<close>

record Polygon =
  paths :: "LatLng list"
  fillColor :: string
  strokeColor :: string
  editable :: bool
  onMap :: bool
  listenerZone :: Zone
  listenerEditingZoneId :: "string option"

record form =
  form_name :: string
  form_description :: string
  form_color :: string

record manual_form = form +
  form_coordinates :: string
  form_centerAddress :: string

text \<open>
  The state of the component (its \<^verbatim>\<open>useState\<close> cells and the map reference), the polygons
  it has created, and the browser underneath.  \<^verbatim>\<open>zonesRef\<close> is synchronised with \<^verbatim>\<open>zones\<close>
  after every render and is not a separate cell.  The map and the drawing manager are
  created together, so \<open>mapInstance\<close> stands for both, and for the SDK being loaded.  The
  cells that only drive the layout (side bar, popover) are left out, and so are the viewport
  of the map and the hover popup as such; the two buttons of the popup are events below.
\<close>

record app = browser +
  zones :: "Zone list"
  isDrawing :: bool
  selectedZone :: "Zone option"
  isEditModalOpen :: bool
  isManualModalOpen :: bool
  isFirstTimeModalOpen :: bool
  editingZoneId :: "string option"
  editForm :: form
  manualForm :: manual_form
  polygons :: "Polygon list"
  mapInstance :: bool

definition empty_manual_form :: manual_form where
  "empty_manual_form =
     \<lparr>form_name = [], form_description = [], form_color = ''#FF0000'',
      form_coordinates = [], form_centerAddress = []\<rparr>"

definition mount :: "browser \<Rightarrow> app" where
  "mount b =
     \<lparr>localStorage = localStorage b, console = console b, alerts = alerts b, clock = clock b,
      zones = [], isDrawing = False, selectedZone = None, isEditModalOpen = False,
      isManualModalOpen = False, isFirstTimeModalOpen = False, editingZoneId = None,
      editForm = \<lparr>form_name = [], form_description = [], form_color = ''#FF0000''\<rparr>,
      manualForm = empty_manual_form, polygons = [], mapInstance = False\<rparr>"

subsection \<open>Serialising the registry\<close>

text \<open>
  The same object literal is written out in four places of the component (the default zone,
  the drawing listener, \<^verbatim>\<open>saveZone\<close> and \<^verbatim>\<open>createManualZone\<close>).
\<close>

definition toLiteral :: "LatLng \<Rightarrow> LatLngLiteral" where
  "toLiteral coord = \<lparr>lat = lat_of coord, lng = lng_of coord\<rparr>"

definition toZoneData :: "Zone \<Rightarrow> ZoneData" where
  "toZoneData zone =
     \<lparr>id' = id' zone, name = name zone, description = description zone,
      coordinates = map toLiteral (coordinates zone), color = color zone,
      createdAt = createdAt zone, updatedAt = updatedAt zone\<rparr>"

definition zonesToSave :: "Zone list \<Rightarrow> jsval" where
  "zonesToSave updatedZones = encode_zones (map toZoneData updatedZones)"

subsection \<open>\<^verbatim>\<open>generateZoneName\<close>\<close>

text \<open>
  \<^verbatim>\<open>name.match(/^Zone (\d+)$/)\<close>: the captured group when the name is \<^verbatim>\<open>Zone\<close>, one space and
  one or more decimal digits, and nothing else.
\<close>

definition match_zone_number :: "string \<Rightarrow> string option" where
  "match_zone_number nm =
     (if starts_with ''Zone '' nm \<and> drop 5 nm \<noteq> [] \<and> list_all is_digit (drop 5 nm)
      then Some (drop 5 nm) else None)"

text \<open>
  The numbers are naturals here; the program's are doubles, which agree with them below
  \<open>2\<^sup>5\<^sup>3\<close>.  \<^verbatim>\<open>Math.max\<close> is only applied to a list that is not empty.
\<close>

definition generateZoneName :: "Zone list \<Rightarrow> string" where
  "generateZoneName zs =
     (let existingNumbers =
            filter (\<lambda>num. num > 0)
              (map (\<lambda>zone. case match_zone_number (name zone) of
                              Some ds \<Rightarrow> parseInt10 ds
                            | None \<Rightarrow> 0) zs);
          nextNumber = (case existingNumbers of
                          [] \<Rightarrow> 1
                        | n # ns \<Rightarrow> fold max ns n + 1)
      in ''Zone '' @ show_nat nextNumber)"

subsection \<open>Polygons\<close>

definition set_editable :: "nat \<Rightarrow> bool \<Rightarrow> Polygon list \<Rightarrow> Polygon list" where
  "set_editable p v ps = ps[p := (ps ! p)\<lparr>editable := v\<rparr>]"

definition set_onMap :: "nat \<Rightarrow> bool \<Rightarrow> Polygon list \<Rightarrow> Polygon list" where
  "set_onMap p v ps = ps[p := (ps ! p)\<lparr>onMap := v\<rparr>]"

definition set_colors :: "nat \<Rightarrow> string \<Rightarrow> Polygon list \<Rightarrow> Polygon list" where
  "set_colors p c ps = ps[p := (ps ! p)\<lparr>fillColor := c, strokeColor := c\<rparr>]"

text \<open>
  A zone is built, its polygon is created next to it (not editable; on the map when there is
  a map), the polygon is hung on the zone and the listeners are registered.
  \<open>add_zone_polygon\<close> does the four steps; the result is the zone with its handle, and the
  table with the new polygon.
\<close>

definition add_zone_polygon ::
  "string option \<Rightarrow> bool \<Rightarrow> LatLng zone_fields \<Rightarrow> Polygon list \<Rightarrow> Zone \<times> Polygon list" where
  "add_zone_polygon captured on z ps =
     (let zone = zone_fields.extend z (Zone.fields (Some (length ps)));
          polygon = \<lparr>paths = coordinates z, fillColor = color z, strokeColor = color z,
                     editable = False, onMap = on,
                     listenerZone = zone, listenerEditingZoneId = captured\<rparr>
      in (zone, ps @ [polygon]))"

text \<open>A condition takes a string for true unless it is \<^verbatim>\<open>null\<close> or empty.\<close>

definition truthy_id :: "string option \<Rightarrow> bool" where
  "truthy_id x = (case x of None \<Rightarrow> False | Some s \<Rightarrow> s \<noteq> [])"


definition open_edit :: "Zone \<Rightarrow> app \<Rightarrow> app" where
  "open_edit zone s =
     s\<lparr>selectedZone := Some zone,
       editForm := \<lparr>form_name = name zone, form_description = description zone,
                    form_color = color zone\<rparr>,
       isEditModalOpen := True\<rparr>"

subsection \<open>Drawing mode\<close>

definition FIRST_TIME_DRAW_KEY :: string where
  "FIRST_TIME_DRAW_KEY = ''first-time-draw-shown''"

definition startDrawing :: "app \<Rightarrow> app" where
  "startDrawing s =
     (case localStorage s FIRST_TIME_DRAW_KEY of
        None \<Rightarrow> s\<lparr>isFirstTimeModalOpen := True\<rparr>
      | Some hasShownFirstTime \<Rightarrow>
          if \<not> truthy_text hasShownFirstTime then s\<lparr>isFirstTimeModalOpen := True\<rparr>
          else if mapInstance s then s\<lparr>isDrawing := True\<rparr>
          else s)"

text \<open>
  The write of the first-run flag is not guarded: when \<^verbatim>\<open>setItem\<close> throws, the handler ends
  there.  The text \<^verbatim>\<open>true\<close> is a JSON text.
\<close>

definition confirmFirstTimeAndDraw :: "bool \<Rightarrow> app \<Rightarrow> app" where
  "confirmFirstTimeAndDraw setItem_returns s =
     (if \<not> setItem_returns then s
      else
        let s1 = s\<lparr>localStorage := (localStorage s)(FIRST_TIME_DRAW_KEY \<mapsto> JsonText (VBool True)),
                   isFirstTimeModalOpen := False\<rparr>
        in if mapInstance s then s1\<lparr>isDrawing := True\<rparr> else s1)"

definition stopDrawing :: "app \<Rightarrow> app" where
  "stopDrawing s = (if mapInstance s then s\<lparr>isDrawing := False\<rparr> else s)"

subsection \<open>The drawing listener\<close>

text \<open>
  The listener for \<^verbatim>\<open>polygoncomplete\<close> is registered once, by the effect that initialises the
  map, so the \<^verbatim>\<open>addPolygonListeners\<close> it calls is the one of the first render, where
  \<^verbatim>\<open>editingZoneId\<close> is \<^verbatim>\<open>null\<close>.  The drawn polygon arrives on the map; \<open>path\<close> is its vertex
  list.  The two time stamps are the two readings of \<^verbatim>\<open>new Date().toISOString()\<close>.
\<close>

definition polygoncomplete :: "LatLng list \<Rightarrow> bool \<Rightarrow> string \<Rightarrow> string \<Rightarrow> app \<Rightarrow> app" where
  "polygoncomplete path setItem_returns iso1 iso2 s =
     (let zoneName = generateZoneName (zones s);
          (newZone, ps) =
             add_zone_polygon None True
               \<lparr>id' = show_nat (clock s), name = zoneName, description = [],
                coordinates = path, color = ''#FF0000'',
                createdAt = iso1, updatedAt = iso2\<rparr> (polygons s);
          updatedZones = zones s @ [newZone];
          s1 = saveZones setItem_returns (zonesToSave updatedZones)
                 (s\<lparr>polygons := ps, zones := updatedZones\<rparr>)
      in (open_edit newZone s1)\<lparr>isDrawing := False\<rparr>)"

subsection \<open>\<^verbatim>\<open>toggleZoneEditMode\<close>\<close>

definition toggleZoneEditMode :: "string \<Rightarrow> app \<Rightarrow> app" where
  "toggleZoneEditMode zoneId s =
     (case find (\<lambda>z. id' z = zoneId) (zones s) of
        None \<Rightarrow> s
      | Some zone \<Rightarrow>
          (case polygon zone of
             None \<Rightarrow> s
           | Some p \<Rightarrow>
               if editingZoneId s = Some zoneId then
                 s\<lparr>polygons := set_editable p False (polygons s), editingZoneId := None\<rparr>
               else
                 let ps =
                   (if truthy_id (editingZoneId s) then
                      (case find (\<lambda>z. Some (id' z) = editingZoneId s) (zones s) of
                         None \<Rightarrow> polygons s
                       | Some currentEditingZone \<Rightarrow>
                           (case polygon currentEditingZone of
                              None \<Rightarrow> polygons s
                            | Some currentPolygon \<Rightarrow>
                                set_editable currentPolygon False (polygons s)))
                    else polygons s)
                 in s\<lparr>polygons := set_editable p True ps, editingZoneId := Some zoneId\<rparr>))"

subsection \<open>\<^verbatim>\<open>saveZone\<close>\<close>

definition saveZone :: "bool \<Rightarrow> string \<Rightarrow> app \<Rightarrow> app" where
  "saveZone setItem_returns stamp s =
     (case selectedZone s of
        None \<Rightarrow> s
      | Some sel \<Rightarrow>
          let updatedZone =
                sel\<lparr>name := form_name (editForm s),
                    description := form_description (editForm s),
                    color := form_color (editForm s),
                    updatedAt := stamp\<rparr>;
              ps = (case polygon sel of
                      None \<Rightarrow> polygons s
                    | Some p \<Rightarrow> set_colors p (form_color (editForm s)) (polygons s));
              updatedZones = map (\<lambda>zone. if id' zone = id' sel then updatedZone else zone) (zones s);
              s1 = saveZones setItem_returns (zonesToSave updatedZones)
                     (s\<lparr>polygons := ps, zones := updatedZones\<rparr>)
          in s1\<lparr>isEditModalOpen := False, selectedZone := None\<rparr>)"

subsection \<open>\<^verbatim>\<open>createManualZone\<close>\<close>

text \<open>
  \<^verbatim>\<open>createManualZone\<close> waits for the geocoder.  The dialog it is called from is modal, so no
  handler that reads or writes the registry runs in between, and the function is one step
  that takes the answer of the geocoder as an argument.
\<close>

text \<open>
  One line of the coordinate text.  The destructuring takes the first two numbers of the
  line; a missing second number is \<^verbatim>\<open>undefined\<close>, for which \<^verbatim>\<open>isNaN\<close> is true.  The \<^verbatim>\<open>LatLng\<close>
  constructor exists once the SDK is loaded (\<open>sdk\<close>); before that, naming it is a reference
  error.
\<close>

definition parsePair :: "bool \<Rightarrow> string \<Rightarrow> error + LatLng" where
  "parsePair sdk pair =
     (case map (\<lambda>s. parseFloat (trim s)) (split_on (CHR '','') pair) of
        y # x # _ \<Rightarrow>
          if isNaN y \<or> isNaN x then Inl (InvalidCoordinatePair pair)
          else if sdk then Inr (LatLng y x)
          else Inl ReferenceError
      | _ \<Rightarrow> Inl (InvalidCoordinatePair pair))"

text \<open>\<^verbatim>\<open>Array.prototype.map\<close> with a callback that may throw: the first throw ends the loop.\<close>

fun map_throw :: "('a \<Rightarrow> error + 'b) \<Rightarrow> 'a list \<Rightarrow> error + 'b list" where
  "map_throw f [] = Inr []"
| "map_throw f (x # xs) =
     (case f x of
        Inl e \<Rightarrow> Inl e
      | Inr y \<Rightarrow> (case map_throw f xs of Inl e \<Rightarrow> Inl e | Inr ys \<Rightarrow> Inr (y # ys)))"

definition coordPairs :: "string \<Rightarrow> string list" where
  "coordPairs text = filter (\<lambda>line. trim line \<noteq> []) (split_on (CHR 0x0A) text)"

definition parseCoordinates :: "bool \<Rightarrow> string \<Rightarrow> error + LatLng list" where
  "parseCoordinates sdk text = map_throw (parsePair sdk) (coordPairs text)"

text \<open>The rectangle around a geocoded location.\<close>

definition offset :: jsnum where
  "offset = Num 0.005"

definition addressRectangle :: "jsnum \<Rightarrow> jsnum \<Rightarrow> LatLng list" where
  "addressRectangle y x =
     [LatLng (js_sub y offset) (js_sub x offset),
      LatLng (js_sub y offset) (js_add x offset),
      LatLng (js_add y offset) (js_add x offset),
      LatLng (js_add y offset) (js_sub x offset)]"

text \<open>
  What the geocoder calls back with: a status other than \<^verbatim>\<open>OK\<close> (or no results), or the
  locations of the results, in order.
\<close>

datatype geocoded = NotOK | Results "LatLng list"

datatype coords_result = Throws error | Alerts string | Coordinates "LatLng list"

definition manual_coordinates :: "geocoded \<Rightarrow> app \<Rightarrow> coords_result" where
  "manual_coordinates geo s =
     (if trim (form_coordinates (manualForm s)) \<noteq> [] then
        (case parseCoordinates (mapInstance s) (form_coordinates (manualForm s)) of
           Inl e \<Rightarrow> Throws e
         | Inr cs \<Rightarrow> Coordinates cs)
      else if trim (form_centerAddress (manualForm s)) \<noteq> [] \<and> mapInstance s then
        (case geo of
           NotOK \<Rightarrow> Throws GeocodingFailed
         | Results [] \<Rightarrow> Throws TypeError
         | Results (location # _) \<Rightarrow>
             Coordinates (addressRectangle (lat_of location) (lng_of location)))
      else Alerts ''Please provide either coordinates or an address'')"

definition createManualZone :: "bool \<Rightarrow> string \<Rightarrow> string \<Rightarrow> geocoded \<Rightarrow> app \<Rightarrow> app" where
  "createManualZone setItem_returns iso1 iso2 geo s =
     (if trim (form_name (manualForm s)) = [] then s
      else
        (case manual_coordinates geo s of
           Throws e \<Rightarrow>
             s\<lparr>console := console s @ [''Error creating manual zone:''],
               alerts := alerts s @ [''Error creating zone. Please check your input format.'']\<rparr>
         | Alerts msg \<Rightarrow> s\<lparr>alerts := alerts s @ [msg]\<rparr>
         | Coordinates cs \<Rightarrow>
             if length cs < 3 then
               s\<lparr>alerts := alerts s @ [''A zone needs at least 3 coordinate points'']\<rparr>
             else
               let (newZone, ps) =
                     add_zone_polygon (editingZoneId s) (mapInstance s)
                       \<lparr>id' = show_nat (clock s), name = form_name (manualForm s),
                        description = form_description (manualForm s),
                        coordinates = cs, color = form_color (manualForm s),
                        createdAt = iso1, updatedAt = iso2\<rparr> (polygons s);
                   updatedZones = zones s @ [newZone];
                   s1 = saveZones setItem_returns (zonesToSave updatedZones)
                          (s\<lparr>polygons := ps, zones := updatedZones\<rparr>)
               in s1\<lparr>manualForm := empty_manual_form, isManualModalOpen := False\<rparr>))"

subsection \<open>Deleting a zone\<close>

text \<open>
  \<^verbatim>\<open>handleDeleteZone\<close> and \<^verbatim>\<open>handleDeleteZoneCallback\<close> have the same body.  The first is
  called from the rendered buttons and sees the current \<^verbatim>\<open>editingZoneId\<close>; the second is
  called from a polygon's popup and sees the value captured with the polygon's listeners.
  The state is updated before \<^verbatim>\<open>deleteZone\<close> is called, so a type error thrown there skips
  only what follows it.
\<close>

definition delete_handler :: "string option \<Rightarrow> bool \<Rightarrow> string \<Rightarrow> app \<Rightarrow> app" where
  "delete_handler editing setItem_returns zoneId s =
     (case find (\<lambda>z. id' z = zoneId) (zones s) of
        None \<Rightarrow> s
      | Some zoneToDelete \<Rightarrow>
          let ps = (case polygon zoneToDelete of
                      None \<Rightarrow> polygons s
                    | Some p \<Rightarrow> set_onMap p False (polygons s));
              updatedZones = filter (\<lambda>z. id' z \<noteq> zoneId) (zones s);
              (r, s1) = deleteZone setItem_returns zoneId (s\<lparr>polygons := ps, zones := updatedZones\<rparr>)
          in (case r of
                Inl e \<Rightarrow> s1
              | Inr remaining \<Rightarrow>
                  s1\<lparr>editingZoneId := (if editing = Some zoneId then None else editingZoneId s1),
                     isEditModalOpen := False, selectedZone := None\<rparr>))"

definition handleDeleteZone :: "bool \<Rightarrow> string \<Rightarrow> app \<Rightarrow> app" where
  "handleDeleteZone setItem_returns zoneId s =
     delete_handler (editingZoneId s) setItem_returns zoneId s"

definition handleDeleteZoneCallback :: "string option \<Rightarrow> bool \<Rightarrow> string \<Rightarrow> app \<Rightarrow> app" where
  "handleDeleteZoneCallback captured setItem_returns zoneId s =
     delete_handler captured setItem_returns zoneId s"

subsection \<open>Initialising the map\<close>

definition DEFAULT_UCF_COORDINATES :: "LatLngLiteral list" where
  "DEFAULT_UCF_COORDINATES =
     [\<lparr>lat = Num 28.60654404825726, lng = Num (- 81.2043835891338)\<rparr>,
      \<lparr>lat = Num 28.60692081353198, lng = Num (- 81.20350382457691)\<rparr>,
      \<lparr>lat = Num 28.607109195662655, lng = Num (- 81.19908354412037)\<rparr>,
      \<lparr>lat = Num 28.605828190512828, lng = Num (- 81.19449160228687)\<rparr>,
      \<lparr>lat = Num 28.60064749567666, lng = Num (- 81.19337580333668)\<rparr>,
      \<lparr>lat = Num 28.597331716934768, lng = Num (- 81.19489929805714)\<rparr>,
      \<lparr>lat = Num 28.595221621449, lng = Num (- 81.1984398139568)\<rparr>,
      \<lparr>lat = Num 28.59544770513446, lng = Num (- 81.20367548595387)\<rparr>,
      \<lparr>lat = Num 28.59716215725568, lng = Num (- 81.20715162883717)\<rparr>,
      \<lparr>lat = Num 28.600346065568633, lng = Num (- 81.20783827434498)\<rparr>,
      \<lparr>lat = Num 28.60396316979816, lng = Num (- 81.20751640926319)\<rparr>,
      \<lparr>lat = Num 28.60533839029832, lng = Num (- 81.20620749126391)\<rparr>]"

definition toLatLng :: "LatLngLiteral \<Rightarrow> LatLng" where
  "toLatLng coord = LatLng (lat coord) (lng coord)"

definition createDefaultZone :: "bool \<Rightarrow> string \<Rightarrow> string \<Rightarrow> app \<Rightarrow> Zone list \<times> app" where
  "createDefaultZone setItem_returns iso1 iso2 s =
     (let (defaultZone, ps) =
            add_zone_polygon None True
              \<lparr>id' = ''ucf-default'', name = ''UCF'', description = ''demo zone'',
               coordinates = map toLatLng DEFAULT_UCF_COORDINATES, color = ''#FF0000'',
               createdAt = iso1, updatedAt = iso2\<rparr> (polygons s)
      in ([defaultZone],
          saveZones setItem_returns (encode_zones [toZoneData defaultZone]) (s\<lparr>polygons := ps\<rparr>)))"

text \<open>
  \<^verbatim>\<open>loadSavedZones\<close> reads the store again and walks through the records.  A stored record
  is read as a \<^verbatim>\<open>ZoneData\<close>; one that does not have that shape ends the loop the way a type
  error does, with the polygons made so far left behind.  (What the SDK would make of such a
  record where the program itself does not fail is not represented.)
\<close>

fun loadSavedZones_loop ::
  "jsval list \<Rightarrow> Zone list \<Rightarrow> Polygon list \<Rightarrow> error option \<times> Zone list \<times> Polygon list" where
  "loadSavedZones_loop [] loadedZones ps = (None, loadedZones, ps)"
| "loadSavedZones_loop (zoneData # rest) loadedZones ps =
     (case decode_zone zoneData of
        None \<Rightarrow> (Some TypeError, loadedZones, ps)
      | Some zd \<Rightarrow>
          let (zone, ps') =
                add_zone_polygon None True
                  \<lparr>id' = id' zd, name = name zd, description = description zd,
                   coordinates = map toLatLng (coordinates zd), color = color zd,
                   createdAt = createdAt zd, updatedAt = updatedAt zd\<rparr> ps
          in loadSavedZones_loop rest (loadedZones @ [zone]) ps')"

definition loadSavedZones :: "app \<Rightarrow> (error + Zone list) \<times> app" where
  "loadSavedZones s =
     (let (savedZones, s1) = loadZones s in
      case savedZones of
        VArr vs \<Rightarrow>
          (case loadSavedZones_loop vs [] (polygons s1) of
             (None, loadedZones, ps) \<Rightarrow> (Inr loadedZones, s1\<lparr>polygons := ps\<rparr>)
           | (Some e, loadedZones, ps) \<Rightarrow> (Inl e, s1\<lparr>polygons := ps\<rparr>))
      | _ \<Rightarrow> (Inl TypeError, s1))"

text \<open>\<^verbatim>\<open>savedZones.length === 0\<close> on a runtime value.\<close>

definition length_is_zero :: "jsval \<Rightarrow> error + bool" where
  "length_is_zero v =
     (case v of
        VNull \<Rightarrow> Inl TypeError
      | VArr vs \<Rightarrow> Inr (vs = [])
      | VStr str \<Rightarrow> Inr (str = [])
      | VObj kvs \<Rightarrow> Inr (map_of kvs ''length'' = Some (VNum (Num 0)))
      | _ \<Rightarrow> Inr False)"

text \<open>
  The effect that runs once after mounting.  \<open>loader_returns\<close> tells whether the SDK could
  be loaded.  Whatever is thrown inside is caught and logged.
\<close>

definition initMap :: "bool \<Rightarrow> bool \<Rightarrow> string \<Rightarrow> string \<Rightarrow> app \<Rightarrow> app" where
  "initMap loader_returns setItem_returns iso1 iso2 s =
     (if \<not> loader_returns then s\<lparr>console := console s @ [''Error loading Google Maps:'']\<rparr>
      else if mapInstance s then s
      else
        let (savedZones, s1) = loadZones (s\<lparr>mapInstance := True\<rparr>) in
        case length_is_zero savedZones of
          Inl e \<Rightarrow> s1\<lparr>console := console s1 @ [''Error loading Google Maps:'']\<rparr>
        | Inr True \<Rightarrow>
            (let (defaultZones, s2) = createDefaultZone setItem_returns iso1 iso2 s1
             in s2\<lparr>zones := defaultZones\<rparr>)
        | Inr False \<Rightarrow>
            (case loadSavedZones s1 of
               (Inl e, s2) \<Rightarrow> s2\<lparr>console := console s2 @ [''Error loading Google Maps:'']\<rparr>
             | (Inr loadedZones, s2) \<Rightarrow> s2\<lparr>zones := loadedZones\<rparr>))"

subsection \<open>The polygon listeners\<close>

text \<open>
  A polygon reports events while it is on the map.  The click listener, and the mouse-over
  listener that opens the popup with its two buttons, do nothing when the captured
  \<^verbatim>\<open>editingZoneId\<close> is set.  Both look the zone up again by the id of the captured zone and
  fall back on the captured zone.  The buttons act on the zone found when the popup was
  opened; nothing changes the registry while the popup is open, so the zone is looked up
  when the button is pressed.  \<open>popup_delete\<close> is the press that was confirmed.
\<close>

definition listens :: "nat \<Rightarrow> app \<Rightarrow> bool" where
  "listens p s =
     (p < length (polygons s) \<and> onMap (polygons s ! p)
      \<and> \<not> truthy_id (listenerEditingZoneId (polygons s ! p)))"

definition currentZone :: "nat \<Rightarrow> app \<Rightarrow> Zone" where
  "currentZone p s =
     (let zone = listenerZone (polygons s ! p) in
      case find (\<lambda>z. id' z = id' zone) (zones s) of
        Some z \<Rightarrow> z
      | None \<Rightarrow> zone)"

definition polygon_click :: "nat \<Rightarrow> app \<Rightarrow> app" where
  "polygon_click p s = (if listens p s then open_edit (currentZone p s) s else s)"

definition popup_edit :: "nat \<Rightarrow> app \<Rightarrow> app" where
  "popup_edit p s = (if listens p s then open_edit (currentZone p s) s else s)"

definition popup_delete :: "nat \<Rightarrow> bool \<Rightarrow> app \<Rightarrow> app" where
  "popup_delete p setItem_returns s =
     (if listens p s
      then handleDeleteZoneCallback (listenerEditingZoneId (polygons s ! p)) setItem_returns
             (id' (currentZone p s)) s
      else s)"

subsection \<open>Events\<close>

text \<open>
  What can happen to the mounted component: the initialising effect, the buttons that start
  and stop drawing, a finished drawing (which the drawing manager reports in drawing mode),
  the buttons of the side bar and of the dialogs, typing into the forms, the polygon
  listeners, and a reload of the page, which mounts the component again over the same
  browser.  Each event carries what the browser decides for it: whether a write to the
  store returns, the time stamps, the answer of the geocoder.
\<close>

datatype event =
    InitMap bool bool string string
  | PolygonComplete "LatLng list" bool string string
  | ToggleZoneEditMode string
  | SidebarEdit nat
  | PolygonClick nat
  | PopupEdit nat
  | PopupDelete nat bool
  | SetEditForm form
  | SetManualForm manual_form
  | SetIsEditModalOpen bool
  | SetIsManualModalOpen bool
  | SetIsFirstTimeModalOpen bool
  | StartDrawing
  | ConfirmFirstTimeAndDraw bool
  | StopDrawing
  | SaveZone bool string
  | CreateManualZone bool string string geocoded
  | HandleDeleteZone bool string
  | Reload

fun handle :: "event \<Rightarrow> app \<Rightarrow> app" where
  "handle (InitMap l w iso1 iso2) s = initMap l w iso1 iso2 s"
| "handle (PolygonComplete path w iso1 iso2) s =
     (if mapInstance s \<and> isDrawing s then polygoncomplete path w iso1 iso2 s else s)"
| "handle (ToggleZoneEditMode zoneId) s = toggleZoneEditMode zoneId s"
| "handle (SidebarEdit i) s = (if i < length (zones s) then open_edit (zones s ! i) s else s)"
| "handle (PolygonClick p) s = polygon_click p s"
| "handle (PopupEdit p) s = popup_edit p s"
| "handle (PopupDelete p w) s = popup_delete p w s"
| "handle (SetEditForm f) s = s\<lparr>editForm := f\<rparr>"
| "handle (SetManualForm f) s = s\<lparr>manualForm := f\<rparr>"
| "handle (SetIsEditModalOpen v) s = s\<lparr>isEditModalOpen := v\<rparr>"
| "handle (SetIsManualModalOpen v) s = s\<lparr>isManualModalOpen := v\<rparr>"
| "handle (SetIsFirstTimeModalOpen v) s = s\<lparr>isFirstTimeModalOpen := v\<rparr>"
| "handle StartDrawing s = startDrawing s"
| "handle (ConfirmFirstTimeAndDraw w) s = confirmFirstTimeAndDraw w s"
| "handle StopDrawing s = stopDrawing s"
| "handle (SaveZone w stamp) s = saveZone w stamp s"
| "handle (CreateManualZone w iso1 iso2 geo) s = createManualZone w iso1 iso2 geo s"
| "handle (HandleDeleteZone w zoneId) s = handleDeleteZone w zoneId s"
| "handle Reload s = mount (browser.truncate s)"

text \<open>
  The states of the editor.  A session starts in a browser whose store is empty, and the
  store is written by this program only.  Between two events the clock advances by at least
  a millisecond, so that two zones never get the same \<^verbatim>\<open>Date.now()\<close> as their id.
\<close>

definition tick :: "nat \<Rightarrow> app \<Rightarrow> app" where
  "tick d s = s\<lparr>clock := clock s + Suc d\<rparr>"

inductive reachable :: "app \<Rightarrow> bool" where
  start: "localStorage b = Map.empty \<Longrightarrow> reachable (mount b)"
| step: "reachable s \<Longrightarrow> reachable (handle e (tick d s))"

section \<open>Notions used to state the properties\<close>

subsection \<open>Zone names\<close>




subsection \<open>Lines of coordinate text\<close>

text \<open>
  The numbers read from one line, the point they give, and two ways for a line to be bad:
  for the program, a line is malformed when one of its first two numbers is missing or is
  \<^verbatim>\<open>NaN\<close>; the specification speaks of a number that is not finite.
\<close>

definition fields :: "string \<Rightarrow> jsnum list" where
  "fields line = map (\<lambda>s. parseFloat (trim s)) (split_on (CHR '','') line)"




subsection \<open>Stored records\<close>

text \<open>What the store holds after a list of records was written to it.\<close>

definition stored_zones :: "ZoneData list \<Rightarrow> jsval list" where
  "stored_zones zs = map (\<lambda>z. jsonify (encode_zone z)) zs"

definition example_record :: "string \<Rightarrow> ZoneData" where
  "example_record i =
     \<lparr>id' = i, name = ''Zone 1'', description = [],
      coordinates = [\<lparr>lat = Num 1, lng = Num 2\<rparr>, \<lparr>lat = Num 3, lng = Num 4\<rparr>,
                     \<lparr>lat = Num 5, lng = Num 6\<rparr>],
      color = ''#FF0000'', createdAt = ''2024-01-01T00:00:00.000Z'',
      updatedAt = ''2024-01-01T00:00:00.000Z''\<rparr>"

definition empty_browser :: browser where
  "empty_browser = \<lparr>localStorage = Map.empty, console = [], alerts = [], clock = 0\<rparr>"

subsection \<open>Vertex editing and the registry\<close>

text \<open>
  A zone is in vertex-edit mode when its polygon is editable.
\<close>

definition in_edit_mode :: "Polygon list \<Rightarrow> Zone \<Rightarrow> bool" where
  "in_edit_mode ps z =
     (case polygon z of None \<Rightarrow> False | Some p \<Rightarrow> p < length ps \<and> editable (ps ! p))"

text \<open>
  The persisted set agrees with the registry when the zones entry holds the text written
  for the serialised registry.
\<close>

definition in_sync :: "app \<Rightarrow> bool" where
  "in_sync s = (localStorage s STORAGE_KEY = Some (JSON_stringify (zonesToSave (zones s))))"

text \<open>
  The ids that the program has handed out before the clock reached \<open>c\<close>: the id of the demo
  zone, and the decimal forms of earlier clock readings.
\<close>

definition issued :: "nat \<Rightarrow> string \<Rightarrow> bool" where
  "issued c i = (i = ''ucf-default'' \<or> (\<exists>n<c. i = show_nat n))"

text \<open>The id of the zone that each polygon was created for.\<close>

definition owners :: "Polygon list \<Rightarrow> string list" where
  "owners ps = map (\<lambda>P. id' (listenerZone P)) ps"

definition zone_ok :: "Polygon list \<Rightarrow> Zone \<Rightarrow> bool" where
  "zone_ok ps z = (\<exists>p. polygon z = Some p \<and> p < length ps \<and> owners ps ! p = id' z)"

definition store_ok :: "nat \<Rightarrow> (string \<rightharpoonup> item) \<Rightarrow> bool" where
  "store_ok c st =
     (case st STORAGE_KEY of
        None \<Rightarrow> True
      | Some t \<Rightarrow>
          (\<exists>zs. t = JSON_stringify (encode_zones zs) \<and> distinct (map id' zs)
                \<and> (\<forall>z \<in> set zs. issued c (id' z))))"

text \<open>
  The invariant of the editor, on the six parts of the state it speaks about: every zone of
  the registry has the polygon that was created for its id; the selected zone carries an
  id that was handed out and is the registry's zone of that id, if there is one; the ids in
  the registry are distinct; a zone in vertex-edit mode is the one named by
  \<^verbatim>\<open>editingZoneId\<close>; before the map exists there are no zones; and the store holds records
  with distinct ids that were handed out.
\<close>

definition inv_fields ::
  "nat \<Rightarrow> Zone list \<Rightarrow> Zone option \<Rightarrow> Polygon list \<Rightarrow> string option \<Rightarrow> bool
     \<Rightarrow> (string \<rightharpoonup> item) \<Rightarrow> bool" where
  "inv_fields c zs sel ps ed mi st \<longleftrightarrow>
     (\<forall>z \<in> set zs. zone_ok ps z) \<and>
     (\<forall>z. sel = Some z \<longrightarrow> issued c (id' z) \<and> (\<forall>z' \<in> set zs. id' z' = id' z \<longrightarrow> z' = z)) \<and>
     (\<forall>i \<in> set (owners ps). issued c i) \<and>
     distinct (map id' zs) \<and>
     (\<forall>z \<in> set zs. in_edit_mode ps z \<longrightarrow> ed = Some (id' z)) \<and>
     ed \<noteq> Some [] \<and>
     (\<not> mi \<longrightarrow> zs = [] \<and> ps = [] \<and> sel = None) \<and>
     store_ok c st"

definition inv_at :: "nat \<Rightarrow> app \<Rightarrow> bool" where
  "inv_at c s \<longleftrightarrow>
     (\<forall>z \<in> set (zones s). zone_ok (polygons s) z) \<and>
     (\<forall>z. selectedZone s = Some z \<longrightarrow>
            issued c (id' z) \<and> (\<forall>z' \<in> set (zones s). id' z' = id' z \<longrightarrow> z' = z)) \<and>
     (\<forall>i \<in> set (owners (polygons s)). issued c i) \<and>
     distinct (map id' (zones s)) \<and>
     (\<forall>z \<in> set (zones s). in_edit_mode (polygons s) z \<longrightarrow> editingZoneId s = Some (id' z)) \<and>
     editingZoneId s \<noteq> Some [] \<and>
     (\<not> mapInstance s \<longrightarrow> zones s = [] \<and> polygons s = [] \<and> selectedZone s = None) \<and>
     store_ok c (localStorage s)"

subsection \<open>A sample session\<close>


definition triangle_form :: manual_form where
  "triangle_form =
     \<lparr>form_name = ''Triangle'', form_description = [], form_color = ''#0000FF'',
      form_coordinates = ''1,1\<newline>2,2\<newline>3,1'', form_centerAddress = []\<rparr>"

definition session1 :: app where
  "session1 = handle (InitMap True True ''t1'' ''t1'') (tick 0 (mount empty_browser))"

definition session2 :: app where
  "session2 = handle (SetManualForm triangle_form) (tick 0 session1)"

definition session3 :: "bool \<Rightarrow> app" where
  "session3 w = handle (CreateManualZone w ''t3'' ''t3'' NotOK) (tick 0 session2)"

definition session4 :: app where
  "session4 = handle (ToggleZoneEditMode ''ucf-default'') (tick 0 (session3 True))"

definition session5 :: app where
  "session5 = handle (SidebarEdit 1) (tick 0 session4)"

definition renamed_form :: form where
  "renamed_form = \<lparr>form_name = ''Renamed'', form_description = ''d'', form_color = ''#00FF00''\<rparr>"

definition session6 :: app where
  "session6 = handle (SetEditForm renamed_form) (tick 0 session5)"

section \<open>Properties\<close>

subsection \<open>Strings\<close>


lemma dropWhile_all: "(\<forall>x \<in> set (dropWhile P s). P x) \<longleftrightarrow> dropWhile P s = []"
proof
  assume a: "\<forall>x \<in> set (dropWhile P s). P x"
  show "dropWhile P s = []"
  proof (rule ccontr)
    assume ne: "dropWhile P s \<noteq> []"
    then have "\<not> P (hd (dropWhile P s))" by (rule hd_dropWhile)
    moreover have "hd (dropWhile P s) \<in> set (dropWhile P s)" using ne by (rule hd_in_set)
    ultimately show False using a by blast
  qed
next
  assume e: "dropWhile P s = []"
  show "\<forall>x \<in> set (dropWhile P s). P x" unfolding e by simp
qed

lemma trim_empty_iff: "trim s = [] \<longleftrightarrow> (\<forall>c \<in> set s. is_space c)"
  by (simp add: trim_def dropWhile_eq_Nil_conv dropWhile_all)

lemmas parseFloat_eval =
  parseFloat_def unsigned_literal_def starts_with_def is_digit_def is_space_def
  parseInt10_def digit_val_def scale10_def exponent_part_def trim_def

lemmas show_nat_eval = show_nat.simps digit_char_def

subsection \<open>Generated names\<close>







subsection \<open>Coordinate text\<close>



subsection \<open>The store\<close>

lemma those_map_Some: "those (map (\<lambda>x. Some (f x)) xs) = Some (map f xs)"
  by (induction xs) auto

lemma decode_encode_coord: "decode_coord (encode_coord c) = Some c"
  by (simp add: decode_coord_def encode_coord_def get_num_def)

lemma decode_encode_zone: "decode_zone (encode_zone z) = Some z"
  by (simp add: decode_zone_def encode_zone_def get_str_def get_coords_def comp_def
      decode_encode_coord those_map_Some)

lemma decode_encode_zones: "decode_zones (encode_zones zs) = Some zs"
  by (simp add: decode_zones_def encode_zones_def comp_def decode_encode_zone those_map_Some)

lemma jsonify_encode_coord:
  "is_finite (lat c) \<Longrightarrow> is_finite (lng c) \<Longrightarrow> jsonify (encode_coord c) = encode_coord c"
  by (simp add: encode_coord_def)

lemma jsonify_encode_zone: "finite_coords z \<Longrightarrow> jsonify (encode_zone z) = encode_zone z"
  by (simp add: encode_zone_def finite_coords_def list_all_iff jsonify_encode_coord map_idI)

lemma jsonify_encode_zones:
  "\<forall>z \<in> set zs. finite_coords z \<Longrightarrow> jsonify (encode_zones zs) = encode_zones zs"
  by (simp add: encode_zones_def jsonify_encode_zone map_idI)


lemma saveZones_throws:
  "localStorage (saveZones False v b) = localStorage b
   \<and> console (saveZones False v b) = console b @ [''Error saving zones:'']"
  by (simp add: saveZones_def)

lemma JSON_parse_None: "JSON_parse t = None \<longleftrightarrow> (\<exists>str. t = Malformed str)"
  by (cases t) (simp_all add: JSON_parse_def)

lemma loadZones_missing: "localStorage b STORAGE_KEY = None \<Longrightarrow> loadZones b = (VArr [], b)"
  by (simp add: loadZones_def)

lemma loadZones_corrupt:
  "localStorage b STORAGE_KEY = Some (Malformed str) \<Longrightarrow>
   loadZones b = (VArr [], if str = [] then b else b\<lparr>console := console b @ [''Error loading zones:'']\<rparr>)"
  by (simp add: loadZones_def JSON_parse_def truthy_text_def)

lemma JSON_stringify_encode_zones:
  "JSON_stringify (encode_zones zs) = JsonText (VArr (stored_zones zs))"
  by (simp add: JSON_stringify_def encode_zones_def stored_zones_def)

lemma jsonify_encode_zones_stored: "jsonify (encode_zones zs) = VArr (stored_zones zs)"
  by (simp add: encode_zones_def stored_zones_def)

lemma id_differs_stored:
  "id_differs zoneId (jsonify (encode_zone z)) = Inr (id' z \<noteq> zoneId)"
  by (simp add: encode_zone_def)

lemma filter_zones_stored:
  "filter_zones zoneId (stored_zones zs) = Inr (stored_zones (filter (\<lambda>z. id' z \<noteq> zoneId) zs))"
  by (induction zs) (simp_all add: stored_zones_def id_differs_stored)

lemma jsonify_idem: "jsonify (jsonify v) = jsonify v"
  by (induction v) (auto simp: is_finite_def split: jsnum.splits)

lemma jsonify_stored: "jsonify (VArr (stored_zones zs)) = VArr (stored_zones zs)"
  by (simp add: stored_zones_def jsonify_idem)

lemma loadZones_stored:
  assumes "localStorage b STORAGE_KEY = Some (JSON_stringify (encode_zones zs))"
  shows "loadZones b = (VArr (stored_zones zs), b)"
  using assms by (simp add: loadZones_def JSON_stringify_encode_zones JSON_parse_def truthy_text_def)

subsection \<open>The address rectangle\<close>


section \<open>The invariant of the editor\<close>

subsection \<open>Decimal numerals\<close>

lemma digit_val_digit_char: "d < 10 \<Longrightarrow> digit_val (digit_char d) = d"
proof -
  assume "d < 10"
  then consider "d = 0" | "d = 1" | "d = 2" | "d = 3" | "d = 4" | "d = 5" | "d = 6" | "d = 7"
    | "d = 8" | "d = 9" by atomize_elim arith
  then show ?thesis
    by cases (simp_all add: digit_val_def digit_char_def)
qed

lemma is_digit_digit_char: "d < 10 \<Longrightarrow> is_digit (digit_char d)"
proof -
  assume "d < 10"
  then consider "d = 0" | "d = 1" | "d = 2" | "d = 3" | "d = 4" | "d = 5" | "d = 6" | "d = 7"
    | "d = 8" | "d = 9" by atomize_elim arith
  then show ?thesis
    by cases (simp_all add: is_digit_def digit_char_def)
qed

lemma parseInt10_snoc: "parseInt10 (ds @ [c]) = 10 * parseInt10 ds + digit_val c"
  by (simp add: parseInt10_def)

lemma parseInt10_show_nat: "parseInt10 (show_nat n) = n"
proof (induction n rule: show_nat.induct)
  case (1 n)
  show ?case
  proof (cases "n < 10")
    case True
    then show ?thesis
      by (simp add: show_nat.simps [of n] parseInt10_def digit_val_digit_char)
  next
    case False
    then have "parseInt10 (show_nat (n div 10)) = n div 10" using 1 by simp
    then show ?thesis
      using False by (simp add: show_nat.simps [of n] parseInt10_snoc digit_val_digit_char)
  qed
qed

lemma show_nat_inj: "show_nat n = show_nat m \<Longrightarrow> n = m"
  by (metis parseInt10_show_nat)

lemma show_nat_digits: "\<forall>c \<in> set (show_nat n). is_digit c"
proof (induction n rule: show_nat.induct)
  case (1 n)
  show ?case
  proof (cases "n < 10")
    case True
    then show ?thesis by (simp add: show_nat.simps [of n] is_digit_digit_char)
  next
    case False
    then have "\<forall>c \<in> set (show_nat (n div 10)). is_digit c" using 1 by simp
    then show ?thesis
      using False by (simp add: show_nat.simps [of n] is_digit_digit_char)
  qed
qed

lemma show_nat_not_Nil: "show_nat n \<noteq> []"
  by (simp add: show_nat.simps [of n])

lemma show_nat_not_ucf: "show_nat n \<noteq> ''ucf-default''"
proof
  assume "show_nat n = ''ucf-default''"
  then have "is_digit (CHR ''u'')" using show_nat_digits [of n] by simp
  then show False by (simp add: is_digit_def)
qed

lemma issued_mono: "issued c i \<Longrightarrow> c \<le> c' \<Longrightarrow> issued c' i"
proof -
  assume a: "issued c i" and le: "c \<le> c'"
  from a consider "i = ''ucf-default''" | n where "n < c" "i = show_nat n"
    unfolding issued_def by blast
  then show ?thesis
  proof cases
    case 1
    then show ?thesis by (simp add: issued_def)
  next
    case 2
    then have "n < c'" using le by simp
    then show ?thesis using 2 unfolding issued_def by blast
  qed
qed

lemma issued_not_Nil: "issued c i \<Longrightarrow> i \<noteq> []"
  unfolding issued_def by (metis show_nat_not_Nil list.distinct(1))

lemma issued_fresh: "issued c i \<Longrightarrow> i \<noteq> show_nat c"
  unfolding issued_def using show_nat_not_ucf show_nat_inj by (metis less_irrefl)

lemma issued_new: "issued (Suc c) (show_nat c)"
  unfolding issued_def by blast

lemma issued_ucf: "issued c ''ucf-default''"
  unfolding issued_def by simp

lemma store_ok_mono: "store_ok c st \<Longrightarrow> c \<le> c' \<Longrightarrow> store_ok c' st"
  unfolding store_ok_def by (auto split: option.splits intro: issued_mono)

lemma inv_at_mono: "inv_at c s \<Longrightarrow> c \<le> c' \<Longrightarrow> inv_at c' s"
  unfolding inv_at_def by (meson issued_mono store_ok_mono)

lemma inv_at_tick: "inv_at (Suc (clock s)) s \<Longrightarrow> inv_at (clock (tick d s)) (tick d s)"
proof -
  assume a: "inv_at (Suc (clock s)) s"
  have "inv_at (Suc (clock s)) (tick d s)" using a by (simp add: inv_at_def tick_def)
  then show ?thesis by (rule inv_at_mono) (simp add: tick_def)
qed

lemma inv_at_fields:
  "inv_at c s = inv_fields c (zones s) (selectedZone s) (polygons s) (editingZoneId s)
                  (mapInstance s) (localStorage s)"
  by (simp add: inv_at_def inv_fields_def)

subsection \<open>Polygon updates\<close>

lemma length_set_editable [simp]: "length (set_editable p v ps) = length ps"
  by (simp add: set_editable_def)

lemma length_set_onMap [simp]: "length (set_onMap p v ps) = length ps"
  by (simp add: set_onMap_def)

lemma length_set_colors [simp]: "length (set_colors p v ps) = length ps"
  by (simp add: set_colors_def)

lemma set_editable_Nil [simp]: "set_editable p v [] = []"
  by (simp add: set_editable_def)

lemma set_onMap_Nil [simp]: "set_onMap p v [] = []"
  by (simp add: set_onMap_def)

lemma set_colors_Nil [simp]: "set_colors p v [] = []"
  by (simp add: set_colors_def)

lemma owners_set_editable [simp]: "owners (set_editable p v ps) = owners ps"
  by (cases "p < length ps")
     (simp_all add: owners_def set_editable_def map_update list_update_same_conv list_update_beyond)

lemma owners_set_onMap [simp]: "owners (set_onMap p v ps) = owners ps"
  by (cases "p < length ps")
     (simp_all add: owners_def set_onMap_def map_update list_update_same_conv list_update_beyond)

lemma owners_set_colors [simp]: "owners (set_colors p v ps) = owners ps"
  by (cases "p < length ps")
     (simp_all add: owners_def set_colors_def map_update list_update_same_conv list_update_beyond)

lemma length_owners [simp]: "length (owners ps) = length ps"
  by (simp add: owners_def)

lemma editable_set_editable:
  "q < length ps \<Longrightarrow> editable (set_editable p v ps ! q) = (if q = p then v else editable (ps ! q))"
  by (simp add: set_editable_def nth_list_update)

lemma editable_set_onMap [simp]: "editable (set_onMap p v ps ! q) = editable (ps ! q)"
  by (cases "p < length ps"; cases "q = p") (simp_all add: set_onMap_def list_update_beyond)

lemma editable_set_colors [simp]: "editable (set_colors p v ps ! q) = editable (ps ! q)"
  by (cases "p < length ps"; cases "q = p") (simp_all add: set_colors_def list_update_beyond)

lemma zone_ok_cong: "length ps' = length ps \<Longrightarrow> owners ps' = owners ps \<Longrightarrow> zone_ok ps' z = zone_ok ps z"
  by (simp add: zone_ok_def)

lemma zone_ok_set_editable [simp]: "zone_ok (set_editable p v ps) z = zone_ok ps z"
  by (simp add: zone_ok_def)

lemma zone_ok_set_onMap [simp]: "zone_ok (set_onMap p v ps) z = zone_ok ps z"
  by (simp add: zone_ok_def)

lemma zone_ok_set_colors [simp]: "zone_ok (set_colors p v ps) z = zone_ok ps z"
  by (simp add: zone_ok_def)

lemma in_edit_mode_set_onMap [simp]: "in_edit_mode (set_onMap p v ps) z = in_edit_mode ps z"
  by (simp add: in_edit_mode_def split: option.splits)

lemma in_edit_mode_set_colors [simp]: "in_edit_mode (set_colors p v ps) z = in_edit_mode ps z"
  by (simp add: in_edit_mode_def split: option.splits)

lemma in_edit_mode_set_editable:
  "polygon z = Some q \<Longrightarrow> q < length ps \<Longrightarrow>
   in_edit_mode (set_editable p v ps) z = (if q = p then v else in_edit_mode ps z)"
  by (simp add: in_edit_mode_def editable_set_editable)

lemma zone_ok_polygon: "zone_ok ps z \<Longrightarrow> \<exists>p. polygon z = Some p \<and> p < length ps \<and> owners ps ! p = id' z"
  by (simp add: zone_ok_def)

lemma zone_ok_issued:
  "zone_ok ps z \<Longrightarrow> \<forall>i \<in> set (owners ps). issued c i \<Longrightarrow> issued c (id' z)"
  by (metis length_owners nth_mem zone_ok_def)

lemma same_polygon_same_id:
  "zone_ok ps z \<Longrightarrow> zone_ok ps z' \<Longrightarrow> polygon z = polygon z' \<Longrightarrow> id' z = id' z'"
  by (auto simp: zone_ok_def)

lemma distinct_ids_eq:
  "distinct (map id' zs) \<Longrightarrow> z \<in> set zs \<Longrightarrow> z' \<in> set zs \<Longrightarrow> id' z = id' z' \<Longrightarrow> z = z'"
  by (meson distinct_map inj_onD)

lemma find_id_Some:
  "distinct (map id' zs) \<Longrightarrow> z \<in> set zs \<Longrightarrow> find (\<lambda>x. id' x = id' z) zs = Some z"
proof (induction zs)
  case Nil
  then show ?case by simp
next
  case (Cons a zs)
  then show ?case by (cases "a = z") (auto simp: image_iff)
qed

lemma find_SomeD: "find P xs = Some x \<Longrightarrow> P x \<and> x \<in> set xs"
  by (metis find_Some_iff nth_mem)

subsection \<open>Entering and leaving vertex editing\<close>

lemma toggle_fields:
  assumes "inv_fields c zs sel ps ed mi st"
    and f: "find (\<lambda>z. id' z = zoneId) zs = Some zone" and p: "polygon zone = Some p"
  shows "inv_fields c zs sel
           (if ed = Some zoneId then set_editable p False ps
            else set_editable p True
                   (if truthy_id ed then
                      (case find (\<lambda>z. Some (id' z) = ed) zs of
                         None \<Rightarrow> ps
                       | Some cz \<Rightarrow> (case polygon cz of None \<Rightarrow> ps | Some cp \<Rightarrow> set_editable cp False ps))
                    else ps))
           (if ed = Some zoneId then None else Some zoneId) mi st"
proof -
  from assms(1) have ok: "\<forall>z \<in> set zs. zone_ok ps z"
    and selc: "\<forall>z. sel = Some z \<longrightarrow> issued c (id' z) \<and> (\<forall>z' \<in> set zs. id' z' = id' z \<longrightarrow> z' = z)"
    and own: "\<forall>i \<in> set (owners ps). issued c i"
    and dist: "distinct (map id' zs)"
    and ed: "\<forall>z \<in> set zs. in_edit_mode ps z \<longrightarrow> ed = Some (id' z)"
    and edne: "ed \<noteq> Some []"
    and mi: "\<not> mi \<longrightarrow> zs = [] \<and> ps = [] \<and> sel = None"
    and st: "store_ok c st"
    unfolding inv_fields_def by blast+
  from find_SomeD [OF f] have zid: "id' zone = zoneId" and zin: "zone \<in> set zs" by simp_all
  from ok zin p have pl: "p < length ps" and po: "owners ps ! p = zoneId"
    using zid by (auto simp: zone_ok_def)
  have zne: "zoneId \<noteq> []"
    using zone_ok_issued [OF _ own, of zone] ok zin zid issued_not_Nil by blast
  have pol: "\<And>z. z \<in> set zs \<Longrightarrow> \<exists>q. polygon z = Some q \<and> q < length ps \<and> owners ps ! q = id' z"
    using ok by (simp add: zone_ok_def)
  show ?thesis
  proof (cases "ed = Some zoneId")
    case True
    have "\<not> in_edit_mode (set_editable p False ps) z" if "z \<in> set zs" for z
    proof
      assume e: "in_edit_mode (set_editable p False ps) z"
      from pol [OF that] obtain q where q: "polygon z = Some q" "q < length ps" "owners ps ! q = id' z"
        by blast
      from e q have "q \<noteq> p" and "in_edit_mode ps z"
        by (auto simp: in_edit_mode_set_editable split: if_splits)
      then have "ed = Some (id' z)" using ed that by blast
      then have "id' z = id' zone" using True zid by simp
      then have "z = zone" using distinct_ids_eq [OF dist that zin] by simp
      then show False using q p \<open>q \<noteq> p\<close> by simp
    qed
    then show ?thesis
      using True ok selc own dist mi st unfolding inv_fields_def by simp
  next
    case False
    define ps1 where "ps1 =
      (if truthy_id ed then
         (case find (\<lambda>z. Some (id' z) = ed) zs of
            None \<Rightarrow> ps
          | Some cz \<Rightarrow> (case polygon cz of None \<Rightarrow> ps | Some cp \<Rightarrow> set_editable cp False ps))
       else ps)"
    have len1: "length ps1 = length ps" and own1: "owners ps1 = owners ps"
      unfolding ps1_def by (auto split: option.splits)
    have e1: "ed = Some (id' z) \<and> id' z \<noteq> zoneId \<Longrightarrow> False"
      if "z \<in> set zs" "in_edit_mode ps1 z" for z
    proof -
      assume a: "ed = Some (id' z) \<and> id' z \<noteq> zoneId"
      from pol [OF that(1)] obtain q where q: "polygon z = Some q" "q < length ps" "owners ps ! q = id' z"
        by blast
      have ne: "id' z \<noteq> []" using a edne by auto
      then have t: "truthy_id ed" using a by (simp add: truthy_id_def)
      have "find (\<lambda>x. Some (id' x) = ed) zs = Some z"
        using find_id_Some [OF dist that(1)] a by (simp add: eq_commute)
      then have "ps1 = set_editable q False ps" unfolding ps1_def using t q by simp
      then show False using that(2) q by (simp add: in_edit_mode_set_editable)
    qed
    have e0: "in_edit_mode ps z" if "z \<in> set zs" "in_edit_mode ps1 z" for z
    proof -
      from pol [OF that(1)] obtain q where q: "polygon z = Some q" "q < length ps" "owners ps ! q = id' z"
        by blast
      show ?thesis using that(2) q unfolding ps1_def
        by (auto simp: in_edit_mode_def editable_set_editable split: option.splits if_splits)
    qed
    have c5: "id' z = zoneId" if "z \<in> set zs" "in_edit_mode (set_editable p True ps1) z" for z
    proof (rule ccontr)
      assume n: "id' z \<noteq> zoneId"
      from pol [OF that(1)] obtain q where q: "polygon z = Some q" "q < length ps" "owners ps ! q = id' z"
        by blast
      have "q \<noteq> p" using q po n by auto
      then have i1: "in_edit_mode ps1 z"
        using that(2) q len1 by (simp add: in_edit_mode_set_editable)
      then have "in_edit_mode ps z" using e0 that(1) by blast
      then have "ed = Some (id' z)" using ed that(1) by blast
      then show False using e1 [OF that(1) i1] n by blast
    qed
    have c1: "\<forall>z \<in> set zs. zone_ok (set_editable p True ps1) z"
      using ok len1 own1 by (simp add: zone_ok_def)
    have c3: "\<forall>i \<in> set (owners (set_editable p True ps1)). issued c i"
      using own own1 by simp
    have c7: "\<not> mi \<longrightarrow> zs = [] \<and> set_editable p True ps1 = [] \<and> sel = None"
      using mi len1 by auto
    have "inv_fields c zs sel (set_editable p True ps1) (Some zoneId) mi st"
      unfolding inv_fields_def
      using c1 selc c3 dist c5 zne c7 st by blast
    then show ?thesis
      using False unfolding ps1_def by simp
  qed
qed

lemma inv_toggleZoneEditMode: "inv_at c s \<Longrightarrow> inv_at c (toggleZoneEditMode zoneId s)"
proof -
  assume a: "inv_at c s"
  show ?thesis
  proof (cases "find (\<lambda>z. id' z = zoneId) (zones s)")
    case None
    then show ?thesis using a by (simp add: toggleZoneEditMode_def)
  next
    case (Some zone)
    show ?thesis
    proof (cases "polygon zone")
      case None
      then show ?thesis using a Some by (simp add: toggleZoneEditMode_def)
    next
      case p: (Some p)
      from toggle_fields [OF a [unfolded inv_at_fields] Some p]
      show ?thesis
        by (cases "editingZoneId s = Some zoneId"; cases "truthy_id (editingZoneId s)")
           (simp_all add: toggleZoneEditMode_def Some p inv_at_fields Let_def)
    qed
  qed
qed

subsection \<open>Selecting a zone\<close>

lemma select_fields:
  assumes "inv_fields c zs sel ps ed mi st" and "mi"
    and "issued c (id' z)" and "\<forall>z' \<in> set zs. id' z' = id' z \<longrightarrow> z' = z"
  shows "inv_fields c zs (Some z) ps ed mi st"
  using assms unfolding inv_fields_def by simp

lemma inv_open_edit:
  assumes "inv_at c s" and "mapInstance s"
    and "issued c (id' z)" and "\<forall>z' \<in> set (zones s). id' z' = id' z \<longrightarrow> z' = z"
  shows "inv_at c (open_edit z s)"
  using select_fields [OF assms(1) [unfolded inv_at_fields] assms(2-4)]
  by (simp add: open_edit_def inv_at_fields)

lemma inv_mapInstance_zones: "inv_at c s \<Longrightarrow> z \<in> set (zones s) \<Longrightarrow> mapInstance s"
  unfolding inv_at_def by fastforce

lemma inv_mapInstance_polygons: "inv_at c s \<Longrightarrow> p < length (polygons s) \<Longrightarrow> mapInstance s"
  unfolding inv_at_def by fastforce

lemma inv_zone_issued: "inv_at c s \<Longrightarrow> z \<in> set (zones s) \<Longrightarrow> issued c (id' z)"
  unfolding inv_at_def using zone_ok_issued by blast

lemma inv_zone_unique:
  "inv_at c s \<Longrightarrow> z \<in> set (zones s) \<Longrightarrow> \<forall>z' \<in> set (zones s). id' z' = id' z \<longrightarrow> z' = z"
  unfolding inv_at_def using distinct_ids_eq by blast

lemma inv_sidebar_edit:
  assumes "inv_at c s"
  shows "inv_at c (handle (SidebarEdit i) s)"
proof (cases "i < length (zones s)")
  case True
  then have m: "zones s ! i \<in> set (zones s)" by simp
  then have "mapInstance s" using inv_mapInstance_zones [OF assms] by blast
  then show ?thesis
    using True inv_open_edit [OF assms _ inv_zone_issued [OF assms m] inv_zone_unique [OF assms m]]
    by simp
next
  case False
  then show ?thesis using assms by simp
qed

lemma inv_currentZone:
  assumes "inv_at c s" and "p < length (polygons s)"
  shows "inv_at c (open_edit (currentZone p s) s)"
proof -
  let ?zone = "listenerZone (polygons s ! p)"
  have mi: "mapInstance s" using inv_mapInstance_polygons [OF assms] .
  have "id' ?zone \<in> set (owners (polygons s))"
    using assms(2) by (simp add: owners_def)
  then have iz: "issued c (id' ?zone)" using assms(1) unfolding inv_at_def by blast
  show ?thesis
  proof (cases "find (\<lambda>z. id' z = id' ?zone) (zones s)")
    case None
    then have "\<forall>z' \<in> set (zones s). id' z' \<noteq> id' ?zone" by (simp add: find_None_iff)
    then have u: "\<forall>z' \<in> set (zones s). id' z' = id' ?zone \<longrightarrow> z' = ?zone" by blast
    have "currentZone p s = ?zone" using None by (simp add: currentZone_def)
    then show ?thesis using inv_open_edit [OF assms(1) mi iz u] by simp
  next
    case (Some z)
    then have m: "z \<in> set (zones s)" using find_SomeD by fastforce
    have "currentZone p s = z" using Some by (simp add: currentZone_def)
    then show ?thesis
      using inv_open_edit [OF assms(1) mi inv_zone_issued [OF assms(1) m] inv_zone_unique [OF assms(1) m]]
      by simp
  qed
qed

lemma inv_polygon_click: "inv_at c s \<Longrightarrow> inv_at c (polygon_click p s)"
  using inv_currentZone [of c s p] by (simp add: polygon_click_def listens_def)

lemma inv_popup_edit: "inv_at c s \<Longrightarrow> inv_at c (popup_edit p s)"
  using inv_currentZone [of c s p] by (simp add: popup_edit_def listens_def)

subsection \<open>Writing the registry\<close>

lemma id_toZoneData [simp]: "id' (toZoneData z) = id' z"
  by (simp add: toZoneData_def)

lemma ids_toZoneData: "map id' (map toZoneData zs) = map id' zs"
  by (simp add: comp_def)

lemma store_ok_save:
  assumes "\<forall>z \<in> set zs. issued c (id' z)" and "distinct (map id' zs)"
  shows "store_ok c (st(STORAGE_KEY \<mapsto> JSON_stringify (zonesToSave zs)))"
proof -
  have "distinct (map id' (map toZoneData zs))" using assms(2) by (simp only: ids_toZoneData)
  moreover have "\<forall>z \<in> set (map toZoneData zs). issued c (id' z)"
    using assms(1) by simp
  ultimately have "\<exists>zsa. JSON_stringify (encode_zones (map toZoneData zs)) = JSON_stringify (encode_zones zsa)
      \<and> distinct (map id' zsa) \<and> (\<forall>z \<in> set zsa. issued c (id' z))"
    by blast
  then show ?thesis
    by (simp add: store_ok_def zonesToSave_def)
qed

lemma localStorage_saveZones:
  "localStorage (saveZones w v s) =
     (if w then (localStorage s)(STORAGE_KEY \<mapsto> JSON_stringify v) else localStorage s)"
  by (simp add: saveZones_def)

lemma saveZones_fields [simp]:
  "zones (saveZones w v s) = zones s"
  "polygons (saveZones w v s) = polygons s"
  "selectedZone (saveZones w v s) = selectedZone s"
  "editingZoneId (saveZones w v s) = editingZoneId s"
  "mapInstance (saveZones w v s) = mapInstance s"
  "clock (saveZones w v s) = clock s"
  by (simp_all add: saveZones_def)

lemma saveZone_fields:
  assumes "inv_fields c zs (Some sel) ps ed mi st"
    and upd: "upd = sel\<lparr>name := n, description := d, color := col, updatedAt := u\<rparr>"
    and zs': "zs' = map (\<lambda>zone. if id' zone = id' sel then upd else zone) zs"
    and ps': "ps' = (case polygon sel of None \<Rightarrow> ps | Some p \<Rightarrow> set_colors p col ps)"
    and st': "st' = (if w then st(STORAGE_KEY \<mapsto> JSON_stringify (zonesToSave zs')) else st)"
  shows "inv_fields c zs' None ps' ed mi st'"
proof -
  from assms(1) have ok: "\<forall>z \<in> set zs. zone_ok ps z"
    and selc: "\<forall>z' \<in> set zs. id' z' = id' sel \<longrightarrow> z' = sel"
    and own: "\<forall>i \<in> set (owners ps). issued c i"
    and dist: "distinct (map id' zs)"
    and ed: "\<forall>z \<in> set zs. in_edit_mode ps z \<longrightarrow> ed = Some (id' z)"
    and edne: "ed \<noteq> Some []"
    and mi: "mi"
    and st: "store_ok c st"
    unfolding inv_fields_def by auto
  have idu: "id' upd = id' sel" and pu: "polygon upd = polygon sel" using upd by simp_all
  have ids: "map id' zs' = map id' zs" unfolding zs' using idu by (induction zs) auto
  have len: "length ps' = length ps" and ow: "owners ps' = owners ps"
    unfolding ps' by (auto split: option.splits)
  have ie: "in_edit_mode ps' z = in_edit_mode ps z" for z
    unfolding ps' by (auto split: option.splits)
  have zk: "zone_ok ps' z = zone_ok ps z" for z
    using len ow by (simp add: zone_ok_def)
  have mem: "z' = upd \<and> sel \<in> set zs \<or> z' \<in> set zs \<and> id' z' \<noteq> id' sel" if "z' \<in> set zs'" for z'
  proof -
    from that obtain z where z: "z \<in> set zs" "z' = (if id' z = id' sel then upd else z)"
      unfolding zs' by auto
    show ?thesis using z selc by (cases "id' z = id' sel") auto
  qed
  have oku: "zone_ok ps upd = zone_ok ps sel" using idu pu by (simp add: zone_ok_def)
  have ieu: "in_edit_mode ps upd = in_edit_mode ps sel" using pu by (simp add: in_edit_mode_def)
  have c1: "\<forall>z \<in> set zs'. zone_ok ps' z"
    using mem ok oku zk by blast
  have c3: "\<forall>i \<in> set (owners ps'). issued c i" using own ow by simp
  have c4: "distinct (map id' zs')" using dist ids by simp
  have c5: "\<forall>z \<in> set zs'. in_edit_mode ps' z \<longrightarrow> ed = Some (id' z)"
    using mem ed ieu ie idu by metis
  have iss: "\<forall>z \<in> set zs'. issued c (id' z)"
    using c1 c3 zone_ok_issued by blast
  have c8: "store_ok c st'"
    unfolding st' using st store_ok_save [OF iss c4] by simp
  show ?thesis
    unfolding inv_fields_def using c1 c3 c4 c5 edne mi c8 by simp
qed

lemma inv_saveZone: "inv_at c s \<Longrightarrow> inv_at c (saveZone w stamp s)"
proof -
  assume a: "inv_at c s"
  show ?thesis
  proof (cases "selectedZone s")
    case None
    then show ?thesis using a by (simp add: saveZone_def)
  next
    case (Some sel)
    have f: "inv_fields c (zones s) (Some sel) (polygons s) (editingZoneId s) (mapInstance s)
               (localStorage s)"
      using a Some by (simp add: inv_at_fields)
    from saveZone_fields [where w = w and n = "form_name (editForm s)"
        and d = "form_description (editForm s)" and col = "form_color (editForm s)"
        and u = stamp, OF f refl refl refl refl]
    show ?thesis
      by (cases w) (simp_all add: saveZone_def Some inv_at_fields Let_def localStorage_saveZones)
  qed
qed

subsection \<open>Adding a zone\<close>

lemma add_zone_polygon_D:
  assumes "add_zone_polygon cap on f ps = (Z, ps')"
  shows "id' Z = id' f" and "polygon Z = Some (length ps)" and "length ps' = Suc (length ps)"
    and "owners ps' = owners ps @ [id' f]" and "\<forall>q < length ps. ps' ! q = ps ! q"
    and "\<not> editable (ps' ! length ps)"
    and "name Z = name f" and "coordinates Z = coordinates f" and "color Z = color f"
    and "description Z = description f" and "createdAt Z = createdAt f"
    and "updatedAt Z = updatedAt f"
  using assms
  by (auto simp: add_zone_polygon_def Let_def owners_def zone_fields.defs Zone.defs nth_append)

lemma add_fields:
  assumes "inv_fields c zs sel ps ed mi st"
    and new: "issued c (id' f)" "id' f \<notin> id' ` set zs" "\<forall>z. sel = Some z \<longrightarrow> id' z \<noteq> id' f"
    and az: "add_zone_polygon cap on f ps = (Z, ps')"
    and zs': "zs' = zs @ [Z]"
    and sel': "sel' = sel \<or> sel' = Some Z"
    and st': "st' = (if w then st(STORAGE_KEY \<mapsto> JSON_stringify (zonesToSave zs')) else st)"
  shows "inv_fields c zs' sel' ps' ed True st'"
proof -
  from assms(1) have ok: "\<forall>z \<in> set zs. zone_ok ps z"
    and selc: "\<forall>z. sel = Some z \<longrightarrow> issued c (id' z) \<and> (\<forall>z' \<in> set zs. id' z' = id' z \<longrightarrow> z' = z)"
    and own: "\<forall>i \<in> set (owners ps). issued c i"
    and dist: "distinct (map id' zs)"
    and ed: "\<forall>z \<in> set zs. in_edit_mode ps z \<longrightarrow> ed = Some (id' z)"
    and edne: "ed \<noteq> Some []"
    and st: "store_ok c st"
    unfolding inv_fields_def by blast+
  note D = add_zone_polygon_D [OF az]
  have okZ: "zone_ok ps' Z"
    unfolding zone_ok_def using D(1-4) by (simp add: nth_append)
  have old_ok: "zone_ok ps' z" if "zone_ok ps z" for z
    using that D(3,4) unfolding zone_ok_def by (auto simp: nth_append)
  have old_ie: "in_edit_mode ps z" if "zone_ok ps z" "in_edit_mode ps' z" for z
    using that D(5) unfolding zone_ok_def in_edit_mode_def by auto
  have nZ: "\<not> in_edit_mode ps' Z"
    using D(2,6) by (simp add: in_edit_mode_def)
  have c1: "\<forall>z \<in> set zs'. zone_ok ps' z" unfolding zs' using ok okZ old_ok by auto
  have c2: "\<forall>z. sel' = Some z \<longrightarrow>
              issued c (id' z) \<and> (\<forall>z' \<in> set zs'. id' z' = id' z \<longrightarrow> z' = z)"
  proof (intro allI impI)
    fix z assume s: "sel' = Some z"
    from sel' show "issued c (id' z) \<and> (\<forall>z' \<in> set zs'. id' z' = id' z \<longrightarrow> z' = z)"
    proof
      assume "sel' = sel"
      then have e: "sel = Some z" using s by simp
      then have "id' z \<noteq> id' Z" using new(3) D(1) by simp
      then show ?thesis using selc e unfolding zs' by auto
    next
      assume "sel' = Some Z"
      then have e: "z = Z" using s by simp
      have "\<forall>z' \<in> set zs. id' z' \<noteq> id' Z" using new(2) D(1) by (metis imageI)
      then show ?thesis using e new(1) D(1) unfolding zs' by auto
    qed
  qed
  have c3: "\<forall>i \<in> set (owners ps'). issued c i" using own new(1) D(4) by simp
  have c4: "distinct (map id' zs')" unfolding zs' using dist new(2) D(1) by simp
  have c5: "\<forall>z \<in> set zs'. in_edit_mode ps' z \<longrightarrow> ed = Some (id' z)"
    unfolding zs' using ok ed old_ie nZ by auto
  have iss: "\<forall>z \<in> set zs'. issued c (id' z)" using c1 c3 zone_ok_issued by blast
  have c8: "store_ok c st'" unfolding st' using st store_ok_save [OF iss c4] by simp
  show ?thesis unfolding inv_fields_def using c1 c2 c3 c4 c5 edne c8 by simp
qed

lemma inv_fields_mono:
  assumes "inv_fields c zs sel ps ed mi st" and le: "c \<le> c'"
  shows "inv_fields c' zs sel ps ed mi st"
proof -
  from assms(1) have ok: "\<forall>z \<in> set zs. zone_ok ps z"
    and selc: "\<forall>z. sel = Some z \<longrightarrow> issued c (id' z) \<and> (\<forall>z' \<in> set zs. id' z' = id' z \<longrightarrow> z' = z)"
    and own: "\<forall>i \<in> set (owners ps). issued c i"
    and dist: "distinct (map id' zs)"
    and ed: "\<forall>z \<in> set zs. in_edit_mode ps z \<longrightarrow> ed = Some (id' z)"
    and edne: "ed \<noteq> Some []"
    and mi: "\<not> mi \<longrightarrow> zs = [] \<and> ps = [] \<and> sel = None"
    and st: "store_ok c st"
    unfolding inv_fields_def by blast+
  have c2: "\<forall>z. sel = Some z \<longrightarrow> issued c' (id' z) \<and> (\<forall>z' \<in> set zs. id' z' = id' z \<longrightarrow> z' = z)"
    using selc issued_mono [OF _ le] by blast
  have c3: "\<forall>i \<in> set (owners ps). issued c' i" using own issued_mono [OF _ le] by blast
  have c8: "store_ok c' st" using st le by (rule store_ok_mono)
  show ?thesis unfolding inv_fields_def using ok c2 c3 dist ed edne mi c8 by blast
qed

lemma add_fresh_fields:
  assumes "inv_fields c zs sel ps ed mi st"
    and idf: "id' f = show_nat c"
    and az: "add_zone_polygon cap on f ps = (Z, ps')"
    and zs': "zs' = zs @ [Z]"
    and sel': "sel' = sel \<or> sel' = Some Z"
    and st': "st' = (if w then st(STORAGE_KEY \<mapsto> JSON_stringify (zonesToSave zs')) else st)"
  shows "inv_fields (Suc c) zs' sel' ps' ed True st'"
proof -
  from assms(1) have ok: "\<forall>z \<in> set zs. zone_ok ps z"
    and selc: "\<forall>z. sel = Some z \<longrightarrow> issued c (id' z)"
    and own: "\<forall>i \<in> set (owners ps). issued c i"
    unfolding inv_fields_def by blast+
  have "\<forall>z \<in> set zs. issued c (id' z)" using ok own zone_ok_issued by blast
  then have n2: "id' f \<notin> id' ` set zs" using issued_fresh idf by fastforce
  have n3: "\<forall>z. sel = Some z \<longrightarrow> id' z \<noteq> id' f" using selc issued_fresh idf by fastforce
  have n1: "issued (Suc c) (id' f)" using idf issued_new by simp
  show ?thesis
    by (rule add_fields [OF inv_fields_mono [OF assms(1)] n1 n2 n3 az zs' sel' st']) simp
qed

lemma inv_polygoncomplete:
  assumes "inv_at (clock s) s" and mi: "mapInstance s"
  shows "inv_at (Suc (clock s)) (polygoncomplete path w iso1 iso2 s)"
proof -
  let ?f = "\<lparr>id' = show_nat (clock s), name = generateZoneName (zones s), description = [],
            coordinates = path, color = ''#FF0000'', createdAt = iso1, updatedAt = iso2\<rparr>"
  obtain Z ps' where az: "add_zone_polygon None True ?f (polygons s) = (Z, ps')"
    by (cases "add_zone_polygon None True ?f (polygons s)")
  from add_fresh_fields [OF assms(1) [unfolded inv_at_fields] _ az refl _ refl, of "Some Z" w]
  show ?thesis
    using mi
    by (cases w)
       (simp_all add: polygoncomplete_def az Let_def inv_at_fields open_edit_def
          localStorage_saveZones)
qed

lemma map_throw_no_sdk: "map_throw (parsePair False) xs = Inr ys \<Longrightarrow> ys = []"
proof (cases xs)
  case Nil
  then show "map_throw (parsePair False) xs = Inr ys \<Longrightarrow> ys = []" by simp
next
  case (Cons x r)
  have "isl (parsePair False x)"
    by (simp add: parsePair_def split: list.splits)
  then show "map_throw (parsePair False) xs = Inr ys \<Longrightarrow> ys = []"
    using Cons by (cases "parsePair False x") simp_all
qed

lemma manual_coordinates_sdk:
  "manual_coordinates geo s = Coordinates cs \<Longrightarrow> cs \<noteq> [] \<Longrightarrow> mapInstance s"
  unfolding manual_coordinates_def parseCoordinates_def
  by (cases "mapInstance s")
     (auto split: if_splits sum.splits geocoded.splits list.splits dest: map_throw_no_sdk)

lemma inv_createManualZone:
  assumes "inv_at (clock s) s"
  shows "inv_at (Suc (clock s)) (createManualZone w iso1 iso2 geo s)"
proof -
  have keep: "inv_at (Suc (clock s)) s" using assms by (rule inv_at_mono) simp
  have log: "inv_at (Suc (clock s)) (s\<lparr>console := x, alerts := y\<rparr>)" for x y
    using keep by (simp add: inv_at_def)
  have al: "inv_at (Suc (clock s)) (s\<lparr>alerts := y\<rparr>)" for y
    using keep by (simp add: inv_at_def)
  show ?thesis
  proof (cases "trim (form_name (manualForm s)) = []")
    case True
    then show ?thesis using keep by (simp add: createManualZone_def)
  next
    case False
    show ?thesis
    proof (cases "manual_coordinates geo s")
      case (Throws e)
      then show ?thesis using False log by (simp add: createManualZone_def)
    next
      case (Alerts msg)
      then show ?thesis using False al by (simp add: createManualZone_def)
    next
      case (Coordinates cs)
      show ?thesis
      proof (cases "length cs < 3")
        case True
        then show ?thesis using False Coordinates al by (simp add: createManualZone_def)
      next
        case big: False
        then have "cs \<noteq> []" by auto
        then have mi: "mapInstance s" using manual_coordinates_sdk [OF Coordinates] by simp
        let ?f = "\<lparr>id' = show_nat (clock s), name = form_name (manualForm s),
                  description = form_description (manualForm s),
                  coordinates = cs, color = form_color (manualForm s),
                  createdAt = iso1, updatedAt = iso2\<rparr>"
        obtain Z ps' where az: "add_zone_polygon (editingZoneId s) True ?f (polygons s) = (Z, ps')"
          by (cases "add_zone_polygon (editingZoneId s) True ?f (polygons s)")
        from add_fresh_fields [OF assms [unfolded inv_at_fields] _ az refl _ refl, of "selectedZone s" w]
        show ?thesis
          using False Coordinates big mi
          by (cases w)
             (simp_all add: createManualZone_def az Let_def inv_at_fields localStorage_saveZones)
      qed
    qed
  qed
qed

subsection \<open>Deleting a zone\<close>

lemma JSON_stringify_stored:
  "JSON_stringify (VArr (stored_zones zs)) = JSON_stringify (encode_zones zs)"
  by (simp add: JSON_stringify_def jsonify_stored jsonify_encode_zones_stored del: jsonify.simps)

lemma deleteZone_stored:
  assumes "localStorage b STORAGE_KEY = Some (JSON_stringify (encode_zones zs))"
  shows "deleteZone w zoneId b =
           (Inr (VArr (stored_zones (filter (\<lambda>z. id' z \<noteq> zoneId) zs))),
            saveZones w (VArr (stored_zones (filter (\<lambda>z. id' z \<noteq> zoneId) zs))) b)"
  by (simp add: deleteZone_def loadZones_stored [OF assms] filter_zones_stored)

lemma deleteZone_missing:
  assumes "localStorage b STORAGE_KEY = None"
  shows "deleteZone w zoneId b = (Inr (VArr []), saveZones w (VArr []) b)"
  by (simp add: deleteZone_def loadZones_missing [OF assms])

lemma deleteZone_app:
  fixes s :: app
  assumes "store_ok c (localStorage s)"
  shows "\<exists>r v. deleteZone w zoneId s = (Inr r, saveZones w v s)
               \<and> store_ok c (localStorage (saveZones w v s))"
proof (cases "localStorage s STORAGE_KEY")
  case None
  have "store_ok c (localStorage (saveZones w (VArr []) s))"
  proof (cases w)
    case True
    have "JSON_stringify (VArr []) = JSON_stringify (encode_zones [])"
      by (simp add: encode_zones_def)
    then show ?thesis using True by (auto simp: localStorage_saveZones store_ok_def)
  next
    case False
    then show ?thesis using assms by (simp add: localStorage_saveZones)
  qed
  then show ?thesis using deleteZone_missing [OF None] by blast
next
  case (Some t)
  then obtain zs where zs: "t = JSON_stringify (encode_zones zs)" "distinct (map id' zs)"
      "\<forall>z \<in> set zs. issued c (id' z)"
    using assms unfolding store_ok_def by auto
  let ?zs' = "filter (\<lambda>z. id' z \<noteq> zoneId) zs"
  have "store_ok c (localStorage (saveZones w (VArr (stored_zones ?zs')) s))"
  proof (cases w)
    case True
    have "distinct (map id' ?zs')" using zs(2) by (simp add: distinct_map_filter)
    moreover have "\<forall>z \<in> set ?zs'. issued c (id' z)" using zs(3) by simp
    ultimately have "\<exists>zsa. JSON_stringify (VArr (stored_zones ?zs')) = JSON_stringify (encode_zones zsa)
        \<and> distinct (map id' zsa) \<and> (\<forall>z \<in> set zsa. issued c (id' z))"
      using JSON_stringify_stored by blast
    then show ?thesis using True by (simp add: localStorage_saveZones store_ok_def)
  next
    case False
    then show ?thesis using assms by (simp add: localStorage_saveZones)
  qed
  then show ?thesis using deleteZone_stored [of s zs w zoneId] Some zs(1) by blast
qed

lemma delete_fields:
  assumes "inv_fields c zs sel ps ed mi st"
    and f: "find (\<lambda>z. id' z = zoneId) zs = Some z0"
    and ps': "ps' = (case polygon z0 of None \<Rightarrow> ps | Some p \<Rightarrow> set_onMap p False ps)"
    and zs': "zs' = filter (\<lambda>z. id' z \<noteq> zoneId) zs"
    and ed': "ed' = (if param = Some zoneId then None else ed)"
    and param: "param = ed \<or> \<not> truthy_id param"
    and st': "store_ok c st'"
  shows "inv_fields c zs' None ps' ed' mi st'"
proof -
  from assms(1) have ok: "\<forall>z \<in> set zs. zone_ok ps z"
    and own: "\<forall>i \<in> set (owners ps). issued c i"
    and dist: "distinct (map id' zs)"
    and ed: "\<forall>z \<in> set zs. in_edit_mode ps z \<longrightarrow> ed = Some (id' z)"
    and edne: "ed \<noteq> Some []"
    and mi: "\<not> mi \<longrightarrow> zs = [] \<and> ps = [] \<and> sel = None"
    unfolding inv_fields_def by blast+
  from find_SomeD [OF f] have zid: "id' z0 = zoneId" and zin: "z0 \<in> set zs" by simp_all
  have zne: "zoneId \<noteq> []"
    using zone_ok_issued [OF _ own, of z0] ok zin zid issued_not_Nil by blast
  have len: "length ps' = length ps" and ow: "owners ps' = owners ps"
    unfolding ps' by (auto split: option.splits)
  have ie: "in_edit_mode ps' z = in_edit_mode ps z" for z
    unfolding ps' by (auto split: option.splits)
  have c1: "\<forall>z \<in> set zs'. zone_ok ps' z"
    unfolding zs' using ok len ow by (simp add: zone_ok_def)
  have c3: "\<forall>i \<in> set (owners ps'). issued c i" using own ow by simp
  have c4: "distinct (map id' zs')" unfolding zs' using dist by (simp add: distinct_map_filter)
  have c5: "\<forall>z \<in> set zs'. in_edit_mode ps' z \<longrightarrow> ed' = Some (id' z)"
  proof (intro ballI impI)
    fix z assume z: "z \<in> set zs'" and e: "in_edit_mode ps' z"
    then have m: "z \<in> set zs" and n: "id' z \<noteq> zoneId" unfolding zs' by simp_all
    have e1: "ed = Some (id' z)" using ed m e ie by blast
    have "param \<noteq> Some zoneId"
      using param e1 n zne by (auto simp: truthy_id_def)
    then show "ed' = Some (id' z)" unfolding ed' using e1 by simp
  qed
  have c6: "ed' \<noteq> Some []" unfolding ed' using edne by simp
  have c7: "\<not> mi \<longrightarrow> zs' = [] \<and> ps' = [] \<and> None = (None :: Zone option)"
    using mi len unfolding zs' by auto
  show ?thesis unfolding inv_fields_def using c1 c3 c4 c5 c6 c7 st' by simp
qed

lemma inv_delete_handler:
  assumes "inv_at c s" and param: "param = editingZoneId s \<or> \<not> truthy_id param"
  shows "inv_at c (delete_handler param w zoneId s)"
proof (cases "find (\<lambda>z. id' z = zoneId) (zones s)")
  case None
  then show ?thesis using assms(1) by (simp add: delete_handler_def)
next
  case (Some z0)
  let ?ps = "case polygon z0 of None \<Rightarrow> polygons s | Some p \<Rightarrow> set_onMap p False (polygons s)"
  let ?zs = "filter (\<lambda>z. id' z \<noteq> zoneId) (zones s)"
  let ?s1 = "s\<lparr>polygons := ?ps, zones := ?zs\<rparr>"
  have so: "store_ok c (localStorage ?s1)" using assms(1) by (simp add: inv_at_def)
  from deleteZone_app [OF so, of w zoneId] obtain r v
    where d: "deleteZone w zoneId ?s1 = (Inr r, saveZones w v ?s1)"
      and so': "store_ok c (localStorage (saveZones w v ?s1))"
    by blast
  from delete_fields [OF assms(1) [unfolded inv_at_fields] Some refl refl refl param so']
  show ?thesis
    by (cases "param = Some zoneId") (simp_all add: delete_handler_def Some d Let_def inv_at_fields)
qed

lemma inv_handleDeleteZone: "inv_at c s \<Longrightarrow> inv_at c (handleDeleteZone w zoneId s)"
  unfolding handleDeleteZone_def by (rule inv_delete_handler) simp_all

lemma inv_popup_delete: "inv_at c s \<Longrightarrow> inv_at c (popup_delete p w s)"
  unfolding popup_delete_def handleDeleteZoneCallback_def
  by (simp add: inv_delete_handler listens_def)

subsection \<open>Mounting and initialising\<close>

lemma decode_stored_id:
  "decode_zone (jsonify (encode_zone z)) = Some zd \<Longrightarrow> id' zd = id' z"
  by (auto simp: decode_zone_def encode_zone_def get_str_def split: option.splits)

lemma inv_fields_forget:
  "inv_fields c zs None ps ed mi st \<Longrightarrow> inv_fields c [] None ps ed True st"
  unfolding inv_fields_def by simp

lemma inv_fields_mi:
  "inv_fields c zs sel ps ed mi st \<Longrightarrow> inv_fields c zs sel ps ed True st"
  unfolding inv_fields_def by simp

lemma loop_fields:
  assumes "inv_fields c acc None ps ed mi st"
    and "distinct (map id' zs0)" and "\<forall>z \<in> set zs0. issued c (id' z)"
    and "id' ` set zs0 \<inter> id' ` set acc = {}"
    and "loadSavedZones_loop (stored_zones zs0) acc ps = (e, acc', ps')"
  shows "inv_fields c acc' None ps' ed True st"
  using assms
proof (induction zs0 arbitrary: acc ps mi)
  case Nil
  then show ?case by (simp add: stored_zones_def inv_fields_mi)
next
  case (Cons z0 rest)
  show ?case
  proof (cases "decode_zone (jsonify (encode_zone z0))")
    case None
    then have "acc' = acc" "ps' = ps" using Cons.prems(5) by (simp_all add: stored_zones_def)
    then show ?thesis using Cons.prems(1) by (simp add: inv_fields_mi)
  next
    case (Some zd)
    let ?f = "\<lparr>id' = id' zd, name = name zd, description = description zd,
              coordinates = map toLatLng (coordinates zd), color = color zd,
              createdAt = createdAt zd, updatedAt = updatedAt zd\<rparr>"
    obtain Z ps1 where az: "add_zone_polygon None True ?f ps = (Z, ps1)"
      by (cases "add_zone_polygon None True ?f ps")
    have idz: "id' zd = id' z0" using Some by (rule decode_stored_id)
    have n1: "issued c (id' ?f)" using Cons.prems(3) idz by simp
    have n2: "id' ?f \<notin> id' ` set acc" using Cons.prems(4) idz by auto
    have step: "inv_fields c (acc @ [Z]) None ps1 ed True st"
      using add_fields [OF Cons.prems(1) n1 n2 _ az refl _ refl, of None False] by simp
    have idZ: "id' Z = id' z0" using add_zone_polygon_D(1) [OF az] idz by simp
    have d: "distinct (map id' rest)" and i: "\<forall>z \<in> set rest. issued c (id' z)"
      using Cons.prems(2,3) by simp_all
    have dj: "id' ` set rest \<inter> id' ` set (acc @ [Z]) = {}"
      using Cons.prems(2,4) idZ by auto
    have l: "loadSavedZones_loop (stored_zones rest) (acc @ [Z]) ps1 = (e, acc', ps')"
      using Cons.prems(5) Some az by (simp add: stored_zones_def)
    show ?thesis by (rule Cons.IH [OF step d i dj l])
  qed
qed

lemma inv_mount:
  assumes "store_ok c (localStorage b)"
  shows "inv_at c (mount b)"
  using assms by (simp add: inv_at_def mount_def owners_def)

lemma inv_reload: "inv_at c s \<Longrightarrow> inv_at c (handle Reload s)"
proof -
  assume "inv_at c s"
  then have "store_ok c (localStorage (browser.truncate s))"
    by (simp add: inv_at_def browser.truncate_def)
  then show ?thesis by (simp add: inv_mount)
qed

lemma loadZones_app:
  fixes s :: app
  shows "zones (snd (loadZones s)) = zones s" "polygons (snd (loadZones s)) = polygons s"
    "selectedZone (snd (loadZones s)) = selectedZone s"
    "editingZoneId (snd (loadZones s)) = editingZoneId s"
    "mapInstance (snd (loadZones s)) = mapInstance s"
    "localStorage (snd (loadZones s)) = localStorage s"
  by (simp_all add: loadZones_def split: option.splits)

lemma inv_createDefaultZone:
  assumes "inv_fields c [] None [] ed mi st"
    and "zones s = []" "polygons s = []" "selectedZone s = None" "editingZoneId s = ed"
    and "mapInstance s" "localStorage s = st"
    and "createDefaultZone w iso1 iso2 s = (dz, s2)"
  shows "inv_at c (s2\<lparr>zones := dz\<rparr>)"
proof -
  let ?f = "\<lparr>id' = ''ucf-default'', name = ''UCF'', description = ''demo zone'',
            coordinates = map toLatLng DEFAULT_UCF_COORDINATES, color = ''#FF0000'',
            createdAt = iso1, updatedAt = iso2\<rparr>"
  obtain Z ps1 where az: "add_zone_polygon None True ?f [] = (Z, ps1)"
    by (cases "add_zone_polygon None True ?f []")
  have n1: "issued c (id' ?f)" by (simp add: issued_ucf)
  from add_fields [OF assms(1) n1 _ _ az refl _ refl, of None w]
  have "inv_fields c [Z] None ps1 ed True
          (if w then st(STORAGE_KEY \<mapsto> JSON_stringify (zonesToSave [Z])) else st)"
    by (cases w) simp_all
  moreover have "dz = [Z]"
    and "s2 = saveZones w (encode_zones [toZoneData Z]) (s\<lparr>polygons := ps1\<rparr>)"
    using assms(3,8) az by (simp_all add: createDefaultZone_def)
  ultimately show ?thesis
    using assms(4-7)
    by (cases w) (simp_all add: inv_at_fields localStorage_saveZones zonesToSave_def)
qed

lemma inv_initMap:
  assumes "inv_at c s"
  shows "inv_at c (initMap l w iso1 iso2 s)"
proof (cases "l \<and> \<not> mapInstance s")
  case False
  have "inv_at c (s\<lparr>console := x\<rparr>)" for x using assms by (simp add: inv_at_def)
  then show ?thesis using False assms by (auto simp: initMap_def)
next
  case True
  then have e: "zones s = []" "polygons s = []" "selectedZone s = None"
    using assms unfolding inv_at_def by simp_all
  let ?s0 = "s\<lparr>mapInstance := True\<rparr>"
  obtain saved s1 where l1: "loadZones ?s0 = (saved, s1)" by (cases "loadZones ?s0")
  have s1: "zones s1 = []" "polygons s1 = []" "selectedZone s1 = None"
    "editingZoneId s1 = editingZoneId s" "mapInstance s1" "localStorage s1 = localStorage s"
    using loadZones_app [of ?s0] l1 e by simp_all
  have base: "inv_fields c [] None [] (editingZoneId s) False (localStorage s)"
    using assms e by (simp add: inv_at_fields inv_fields_def)
  have so: "store_ok c (localStorage s)" using assms by (simp add: inv_at_def)
  have log: "inv_at c (s1\<lparr>console := x\<rparr>)" for x
    using base s1 by (simp add: inv_at_fields inv_fields_def)
  have dflt: "inv_at c (case createDefaultZone w iso1 iso2 s1 of (dz, s2) \<Rightarrow> s2\<lparr>zones := dz\<rparr>)"
  proof -
    obtain dz s2 where c: "createDefaultZone w iso1 iso2 s1 = (dz, s2)"
      by (cases "createDefaultZone w iso1 iso2 s1")
    show ?thesis
      using inv_createDefaultZone [OF base s1(1,2,3,4,5,6) c] c by simp
  qed
  show ?thesis
  proof (cases "localStorage s STORAGE_KEY")
    case None
    then have "saved = VArr []" using l1 by (simp add: loadZones_def)
    then show ?thesis
      using True l1 dflt by (simp add: initMap_def length_is_zero_def)
  next
    case (Some t)
    then obtain zs0 where zs0: "t = JSON_stringify (encode_zones zs0)" "distinct (map id' zs0)"
        "\<forall>z \<in> set zs0. issued c (id' z)"
      using so unfolding store_ok_def by auto
    have st0: "localStorage ?s0 STORAGE_KEY = Some (JSON_stringify (encode_zones zs0))"
      using Some zs0(1) by simp
    have sv: "saved = VArr (stored_zones zs0)" and s1eq: "s1 = ?s0"
      using l1 loadZones_stored [OF st0] by simp_all
    show ?thesis
    proof (cases "zs0 = []")
      case True
      then show ?thesis
        using \<open>l \<and> \<not> mapInstance s\<close> l1 sv dflt
        by (simp add: initMap_def length_is_zero_def stored_zones_def)
    next
      case False
      obtain e' acc' ps' where lp: "loadSavedZones_loop (stored_zones zs0) [] [] = (e', acc', ps')"
        by (cases "loadSavedZones_loop (stored_zones zs0) [] []") auto
      have fin: "inv_fields c acc' None ps' (editingZoneId s) True (localStorage s)"
        by (rule loop_fields [OF base zs0(2,3) _ lp]) simp
      have ls: "loadSavedZones s1 =
                  (case e' of None \<Rightarrow> (Inr acc', s1\<lparr>polygons := ps'\<rparr>)
                   | Some er \<Rightarrow> (Inl er, s1\<lparr>polygons := ps'\<rparr>))"
        using lp loadZones_stored [OF st0] e(2)
        by (simp add: loadSavedZones_def s1eq split: option.splits)
      have "inv_at c (case loadSavedZones s1 of
                        (Inl er, s2) \<Rightarrow> s2\<lparr>console := console s2 @ [''Error loading Google Maps:'']\<rparr>
                      | (Inr loadedZones, s2) \<Rightarrow> s2\<lparr>zones := loadedZones\<rparr>)"
        using fin inv_fields_forget [OF fin] s1
        by (cases e') (simp_all add: ls inv_at_fields)
      then show ?thesis
        using \<open>l \<and> \<not> mapInstance s\<close> l1 sv False
        by (simp add: initMap_def length_is_zero_def stored_zones_def)
    qed
  qed
qed

subsection \<open>All events\<close>

lemma clock_loadZones [simp]: "clock (snd (loadZones s)) = clock s"
  by (simp add: loadZones_def split: option.splits)

lemma clock_deleteZone [simp]: "clock (snd (deleteZone w zoneId s)) = clock s"
proof -
  obtain v s1 where l: "loadZones s = (v, s1)" by (cases "loadZones s")
  then have "clock s1 = clock s" using clock_loadZones [of s] by simp
  then show ?thesis
    by (simp add: deleteZone_def l saveZones_def split: jsval.splits sum.splits)
qed

lemma clock_createDefaultZone [simp]: "clock (snd (createDefaultZone w iso1 iso2 s)) = clock s"
  by (simp add: createDefaultZone_def Let_def saveZones_def split: prod.splits)

lemma clock_loadSavedZones [simp]: "clock (snd (loadSavedZones s)) = clock s"
proof -
  obtain v s1 where l: "loadZones s = (v, s1)" by (cases "loadZones s")
  then have "clock s1 = clock s" using clock_loadZones [of s] by simp
  then show ?thesis
    by (simp add: loadSavedZones_def l split: jsval.splits prod.splits option.splits)
qed

lemma clock_initMap: "clock (initMap l w iso1 iso2 s) = clock s"
proof -
  let ?s0 = "s\<lparr>mapInstance := True\<rparr>"
  obtain v s1 where l: "loadZones ?s0 = (v, s1)" by (cases "loadZones ?s0")
  then have c1: "clock s1 = clock s" using clock_loadZones [of ?s0] by simp
  obtain dz s2 where d: "createDefaultZone w iso1 iso2 s1 = (dz, s2)"
    by (cases "createDefaultZone w iso1 iso2 s1")
  then have c2: "clock s2 = clock s" using clock_createDefaultZone [of w iso1 iso2 s1] c1 by simp
  obtain r s3 where ls: "loadSavedZones s1 = (r, s3)" by (cases "loadSavedZones s1")
  then have c3: "clock s3 = clock s" using clock_loadSavedZones [of s1] c1 by simp
  show ?thesis
    using c1 c2 c3
    by (simp add: initMap_def l d ls split: sum.splits bool.splits)
qed

lemma clock_delete_handler: "clock (delete_handler param w zoneId s) = clock s"
proof (cases "find (\<lambda>z. id' z = zoneId) (zones s)")
  case None
  then show ?thesis by (simp add: delete_handler_def)
next
  case (Some z0)
  let ?s1 = "s\<lparr>polygons := (case polygon z0 of None \<Rightarrow> polygons s
                                   | Some p \<Rightarrow> set_onMap p False (polygons s)),
               zones := filter (\<lambda>z. id' z \<noteq> zoneId) (zones s)\<rparr>"
  obtain r s2 where d: "deleteZone w zoneId ?s1 = (r, s2)" by (cases "deleteZone w zoneId ?s1")
  then have "clock s2 = clock s" using clock_deleteZone [of w zoneId ?s1] by simp
  then show ?thesis
    by (simp add: delete_handler_def Some d Let_def split: sum.splits)
qed

lemma clock_handle: "clock (handle e s) = clock s"
proof (cases e)
  case (InitMap l w iso1 iso2)
  then show ?thesis by (simp add: clock_initMap)
next
  case (PolygonComplete path w iso1 iso2)
  then show ?thesis
    by (simp add: polygoncomplete_def Let_def open_edit_def split: prod.splits)
next
  case (ToggleZoneEditMode zoneId)
  then show ?thesis
    by (simp add: toggleZoneEditMode_def Let_def split: option.splits)
next
  case (SaveZone w stamp)
  then show ?thesis by (simp add: saveZone_def Let_def split: option.splits)
next
  case (CreateManualZone w iso1 iso2 geo)
  then show ?thesis
    by (simp add: createManualZone_def Let_def split: coords_result.splits prod.splits)
next
  case (HandleDeleteZone w zoneId)
  then show ?thesis by (simp add: handleDeleteZone_def clock_delete_handler)
next
  case (PopupDelete p w)
  then show ?thesis
    by (simp add: popup_delete_def handleDeleteZoneCallback_def clock_delete_handler)
next
  case Reload
  then show ?thesis by (simp add: mount_def browser.truncate_def)
next
  case StartDrawing
  then show ?thesis by (simp add: startDrawing_def split: option.splits)
next
  case (ConfirmFirstTimeAndDraw w)
  then show ?thesis by (simp add: confirmFirstTimeAndDraw_def Let_def)
next
  case StopDrawing
  then show ?thesis by (simp add: stopDrawing_def)
qed (simp_all add: open_edit_def polygon_click_def popup_edit_def)

lemma inv_handle:
  assumes "inv_at (clock s) s"
  shows "inv_at (Suc (clock s)) (handle e s)"
proof -
  have up: "inv_at (clock s) t \<Longrightarrow> inv_at (Suc (clock s)) t" for t
    using inv_at_mono [of "clock s" t "Suc (clock s)"] by simp
  have keep: "inv_at (Suc (clock s)) s" using assms by (rule up)
  show ?thesis
  proof (cases e)
    case (InitMap l w iso1 iso2)
    then show ?thesis using up [OF inv_initMap [OF assms]] by simp
  next
    case (PolygonComplete path w iso1 iso2)
    then show ?thesis using inv_polygoncomplete [OF assms] keep by simp
  next
    case (ToggleZoneEditMode zoneId)
    then show ?thesis using up [OF inv_toggleZoneEditMode [OF assms]] by simp
  next
    case (SidebarEdit i)
    then show ?thesis using up [OF inv_sidebar_edit [OF assms]] by simp
  next
    case (PolygonClick p)
    then show ?thesis using up [OF inv_polygon_click [OF assms]] by simp
  next
    case (PopupEdit p)
    then show ?thesis using up [OF inv_popup_edit [OF assms]] by simp
  next
    case (PopupDelete p w)
    then show ?thesis using up [OF inv_popup_delete [OF assms]] by simp
  next
    case (SetEditForm f)
    then show ?thesis using keep by (simp add: inv_at_def)
  next
    case (SetManualForm f)
    then show ?thesis using keep by (simp add: inv_at_def)
  next
    case (SetIsEditModalOpen v)
    then show ?thesis using keep by (simp add: inv_at_def)
  next
    case (SetIsManualModalOpen v)
    then show ?thesis using keep by (simp add: inv_at_def)
  next
    case (SetIsFirstTimeModalOpen v)
    then show ?thesis using keep by (simp add: inv_at_def)
  next
    case StartDrawing
    then show ?thesis using keep by (simp add: inv_at_def startDrawing_def split: option.splits)
  next
    case (ConfirmFirstTimeAndDraw w)
    have "store_ok c ((localStorage s)(FIRST_TIME_DRAW_KEY \<mapsto> x)) = store_ok c (localStorage s)" for c x
      by (simp add: store_ok_def FIRST_TIME_DRAW_KEY_def STORAGE_KEY_def)
    then show ?thesis
      using ConfirmFirstTimeAndDraw keep by (simp add: inv_at_def confirmFirstTimeAndDraw_def Let_def)
  next
    case StopDrawing
    then show ?thesis using keep by (simp add: inv_at_def stopDrawing_def)
  next
    case (SaveZone w stamp)
    then show ?thesis using up [OF inv_saveZone [OF assms]] by simp
  next
    case (CreateManualZone w iso1 iso2 geo)
    then show ?thesis using inv_createManualZone [OF assms] by simp
  next
    case (HandleDeleteZone w zoneId)
    then show ?thesis using up [OF inv_handleDeleteZone [OF assms]] by simp
  next
    case Reload
    then show ?thesis using up [OF inv_reload [OF assms]] by simp
  qed
qed

lemma store_ok_empty: "st = Map.empty \<Longrightarrow> store_ok c st"
  by (simp add: store_ok_def)

lemma reachable_inv: "reachable s \<Longrightarrow> inv_at (Suc (clock s)) s"
proof (induction rule: reachable.induct)
  case (start b)
  then show ?case by (simp add: inv_mount store_ok_empty)
next
  case (step s e d)
  have "inv_at (clock (tick d s)) (tick d s)" using step.IH by (rule inv_at_tick)
  then have "inv_at (Suc (clock (tick d s))) (handle e (tick d s))" by (rule inv_handle)
  then show ?case by (simp add: clock_handle)
qed

section \<open>The sample session\<close>

lemmas session_eval =
  session1_def session2_def session3_def session4_def session5_def session6_def
  tick_def mount_def empty_browser_def empty_manual_form_def triangle_form_def renamed_form_def
  initMap_def loadZones_def length_is_zero_def createDefaultZone_def add_zone_polygon_def
  saveZones_def Let_def zone_fields.defs Zone.defs
  createManualZone_def manual_coordinates_def parseCoordinates_def coordPairs_def parsePair_def
  isNaN_def parseFloat_eval show_nat_eval toggleZoneEditMode_def truthy_id_def set_editable_def
  open_edit_def

lemma reachable_session1: "reachable session1"
  unfolding session1_def by (rule reachable.step, rule reachable.start) (simp add: empty_browser_def)

lemma reachable_session2: "reachable session2"
  unfolding session2_def by (rule reachable.step) (rule reachable_session1)

lemma reachable_session3: "reachable (session3 w)"
  unfolding session3_def by (rule reachable.step) (rule reachable_session2)

lemma reachable_session4: "reachable session4"
  unfolding session4_def by (rule reachable.step) (rule reachable_session3)

lemma reachable_session5: "reachable session5"
  unfolding session5_def by (rule reachable.step) (rule reachable_session4)

lemma reachable_session6: "reachable session6"
  unfolding session6_def by (rule reachable.step) (rule reachable_session5)


lemma session6_facts:
  "length (zones session6) = 2"
  "selectedZone session6 = Some (zones session6 ! 1)"
  "id' (zones session6 ! 0) = ''ucf-default''"
  "id' (zones session6 ! 1) = ''3''"
  "editForm session6 = renamed_form"
  "name (zones session6 ! 1) = ''Triangle''"
  by (simp_all add: session_eval)

lemma session1_in_sync: "in_sync session1"
  by (simp add: in_sync_def session_eval zonesToSave_def)

section \<open>Auxiliary facts\<close>



lemma saveZone_frame_general:
  assumes "selectedZone s = Some sel"
    and "\<forall>z \<in> set (zones s). id' z = id' sel \<longrightarrow> z = sel"
  shows "length (zones (saveZone w stamp s)) = length (zones s)
         \<and> (\<forall>i < length (zones s).
               id' (zones (saveZone w stamp s) ! i) = id' (zones s ! i)
               \<and> createdAt (zones (saveZone w stamp s) ! i) = createdAt (zones s ! i)
               \<and> coordinates (zones (saveZone w stamp s) ! i) = coordinates (zones s ! i)
               \<and> polygon (zones (saveZone w stamp s) ! i) = polygon (zones s ! i)
               \<and> (id' (zones s ! i) \<noteq> id' sel \<longrightarrow> zones (saveZone w stamp s) ! i = zones s ! i)
               \<and> (id' (zones s ! i) = id' sel \<longrightarrow>
                    zones (saveZone w stamp s) ! i =
                      (zones s ! i)\<lparr>name := form_name (editForm s),
                                     description := form_description (editForm s),
                                     color := form_color (editForm s),
                                     updatedAt := stamp\<rparr>))"
  using assms by (auto simp: saveZone_def Let_def)

lemma filter_toZoneData:
  "filter (\<lambda>z. id' z \<noteq> zoneId) (map toZoneData zs) = map toZoneData (filter (\<lambda>z. id' z \<noteq> zoneId) zs)"
  by (simp add: filter_map comp_def)

lemma delete_handler_store:
  assumes "localStorage s STORAGE_KEY = Some (JSON_stringify (encode_zones zs))"
    and "find (\<lambda>z. id' z = zoneId) (zones s) = Some z0"
  shows "localStorage (delete_handler param True zoneId s) STORAGE_KEY =
           Some (JSON_stringify (encode_zones (filter (\<lambda>z. id' z \<noteq> zoneId) zs)))"
    and "zones (delete_handler param True zoneId s) = filter (\<lambda>z. id' z \<noteq> zoneId) (zones s)"
proof -
  let ?s1 = "s\<lparr>polygons := (case polygon z0 of None \<Rightarrow> polygons s
                                   | Some p \<Rightarrow> set_onMap p False (polygons s)),
               zones := filter (\<lambda>z. id' z \<noteq> zoneId) (zones s)\<rparr>"
  have st: "localStorage ?s1 STORAGE_KEY = Some (JSON_stringify (encode_zones zs))"
    using assms(1) by simp
  note d = deleteZone_stored [OF st, of True zoneId]
  show "localStorage (delete_handler param True zoneId s) STORAGE_KEY =
           Some (JSON_stringify (encode_zones (filter (\<lambda>z. id' z \<noteq> zoneId) zs)))"
    by (simp add: delete_handler_def assms(2) d Let_def localStorage_saveZones JSON_stringify_stored)
  show "zones (delete_handler param True zoneId s) = filter (\<lambda>z. id' z \<noteq> zoneId) (zones s)"
    by (simp add: delete_handler_def assms(2) d Let_def)
qed

lemma in_sync_delete_handler:
  assumes "in_sync s"
  shows "in_sync (delete_handler param True zoneId s)"
proof (cases "find (\<lambda>z. id' z = zoneId) (zones s)")
  case None
  then show ?thesis using assms by (simp add: delete_handler_def)
next
  case (Some z0)
  have st: "localStorage s STORAGE_KEY = Some (JSON_stringify (encode_zones (map toZoneData (zones s))))"
    using assms by (simp add: in_sync_def zonesToSave_def)
  show ?thesis
    unfolding in_sync_def
    by (simp add: delete_handler_store [OF st Some] zonesToSave_def filter_toZoneData)
qed



lemma coordPairs_alt:
  "coordPairs text = filter (\<lambda>line. \<not> (\<forall>c \<in> set line. is_space c)) (split_on (CHR 0x0A) text)"
  by (simp add: coordPairs_def trim_empty_iff)

section \<open>The claims\<close>

text \<open>
  C1, as the program has it.  A finished drawing, a manual creation that adds a zone and a
  saved attribute edit write the serialisation of the whole registry as it is after the
  operation.  A deletion writes the persisted records without those of the deleted id; that
  is the serialisation of the registry after the deletion whenever the persisted set agreed
  with the registry before it.  All four are stated for a write that the store accepts.
\<close>

theorem mutations_persist:
  "in_sync (polygoncomplete path True iso1 iso2 s)
   \<and> (zones (createManualZone True iso1 iso2 geo s) \<noteq> zones s \<longrightarrow>
        in_sync (createManualZone True iso1 iso2 geo s))
   \<and> (selectedZone s \<noteq> None \<longrightarrow> in_sync (saveZone True stamp s))
   \<and> (in_sync s \<longrightarrow> in_sync (handleDeleteZone True zoneId s)
                    \<and> in_sync (handleDeleteZoneCallback captured True zoneId s))
   \<and> (\<forall>zs. localStorage s STORAGE_KEY = Some (JSON_stringify (encode_zones zs))
            \<and> find (\<lambda>z. id' z = zoneId) (zones s) \<noteq> None \<longrightarrow>
          localStorage (handleDeleteZone True zoneId s) STORAGE_KEY =
            Some (JSON_stringify (encode_zones (filter (\<lambda>z. id' z \<noteq> zoneId) zs))))"
proof -
  have a: "in_sync (polygoncomplete path True iso1 iso2 s)"
    by (simp add: in_sync_def polygoncomplete_def Let_def open_edit_def localStorage_saveZones
        split: prod.splits)
  have b: "zones (createManualZone True iso1 iso2 geo s) \<noteq> zones s \<longrightarrow>
        in_sync (createManualZone True iso1 iso2 geo s)"
    by (simp add: in_sync_def createManualZone_def Let_def localStorage_saveZones
        split: prod.splits coords_result.splits)
  have c: "selectedZone s \<noteq> None \<longrightarrow> in_sync (saveZone True stamp s)"
    by (auto simp: in_sync_def saveZone_def Let_def localStorage_saveZones)
  have d: "in_sync s \<longrightarrow> in_sync (handleDeleteZone True zoneId s)
                    \<and> in_sync (handleDeleteZoneCallback captured True zoneId s)"
    by (simp add: handleDeleteZone_def handleDeleteZoneCallback_def in_sync_delete_handler)
  have e: "\<forall>zs. localStorage s STORAGE_KEY = Some (JSON_stringify (encode_zones zs))
            \<and> find (\<lambda>z. id' z = zoneId) (zones s) \<noteq> None \<longrightarrow>
          localStorage (handleDeleteZone True zoneId s) STORAGE_KEY =
            Some (JSON_stringify (encode_zones (filter (\<lambda>z. id' z \<noteq> zoneId) zs)))"
    unfolding handleDeleteZone_def using delete_handler_store(1) by blast
  show ?thesis using a b c d e by blast
qed

theorem mutations_persist_witness:
  "in_sync session1
   \<and> in_sync (handleDeleteZone True ''ucf-default'' session1)
   \<and> zones (handleDeleteZone True ''ucf-default'' session1) = []
   \<and> in_sync (polygoncomplete [] True ''t2'' ''t2'' session1)"
proof -
  note m = mutations_persist [of "[]" "''t2''" "''t2''" session1 NotOK "''t''" "''ucf-default''" None]
  have "in_sync (handleDeleteZone True ''ucf-default'' session1)"
    using m session1_in_sync by blast
  moreover have "in_sync (polygoncomplete [] True ''t2'' ''t2'' session1)" using m by blast
  moreover have "zones (handleDeleteZone True ''ucf-default'' session1) = []"
    by (simp add: session_eval handleDeleteZone_def delete_handler_def deleteZone_def
        JSON_stringify_def JSON_parse_def truthy_text_def encode_zones_def encode_zone_def
        toZoneData_def STORAGE_KEY_def split: prod.splits)
  ultimately show ?thesis using session1_in_sync by blast
qed

text \<open>
  C1 as the specification states it fails for a deletion.  In the sample session the store
  refuses the write of the triangle, so the store still holds the demo zone alone; deleting
  the demo zone then writes the empty list, while the registry holds the triangle.
\<close>

theorem delete_after_refused_write:
  "reachable (session3 False)
   \<and> map id' (zones (handleDeleteZone True ''ucf-default'' (session3 False))) = [''3'']
   \<and> localStorage (handleDeleteZone True ''ucf-default'' (session3 False)) STORAGE_KEY
       = Some (JsonText (VArr []))
   \<and> \<not> in_sync (handleDeleteZone True ''ucf-default'' (session3 False))"
proof -
  let ?s = "session3 False"
  have st: "localStorage ?s STORAGE_KEY = Some (JSON_stringify (encode_zones [toZoneData (zones session1 ! 0)]))"
    by (simp add: session_eval encode_zones_def toZoneData_def STORAGE_KEY_def)
  have ids: "map id' (zones ?s) = [''ucf-default'', ''3'']"
    by (simp add: session_eval)
  have i1: "id' (zones session1 ! 0) = ''ucf-default''" by (simp add: session_eval)
  obtain z0 where f: "find (\<lambda>z. id' z = ''ucf-default'') (zones ?s) = Some z0"
    by (simp add: session_eval)
  have "map id' (filter (\<lambda>z. id' z \<noteq> ''ucf-default'') (zones ?s))
          = filter (\<lambda>i. i \<noteq> ''ucf-default'') (map id' (zones ?s))"
    by (simp add: filter_map comp_def)
  then have z: "map id' (zones (handleDeleteZone True ''ucf-default'' ?s)) = [''3'']"
    unfolding handleDeleteZone_def delete_handler_store(2) [OF st f] ids by simp
  have l: "localStorage (handleDeleteZone True ''ucf-default'' ?s) STORAGE_KEY = Some (JsonText (VArr []))"
    unfolding handleDeleteZone_def delete_handler_store(1) [OF st f]
    by (simp add: i1 JSON_stringify_def encode_zones_def)
  have "zones (handleDeleteZone True ''ucf-default'' ?s) \<noteq> []" using z by auto
  then have n: "\<not> in_sync (handleDeleteZone True ''ucf-default'' ?s)"
    unfolding in_sync_def l by (simp add: JSON_stringify_def zonesToSave_def encode_zones_def)
  show ?thesis using reachable_session3 z l n by blast
qed



text \<open>
  C3.  On a store that holds a list of zone records, \<^verbatim>\<open>deleteZone\<close> returns the stored records
  without those of the given id and saves exactly that list; when no stored record has the
  id, it returns what \<^verbatim>\<open>loadZones\<close> returns and the store is left as it was.
\<close>

theorem deleteZone_spec:
  assumes "localStorage b STORAGE_KEY = Some (JSON_stringify (encode_zones zs))"
  shows "deleteZone w zoneId b =
           (Inr (VArr (stored_zones (filter (\<lambda>z. id' z \<noteq> zoneId) zs))),
            saveZones w (VArr (stored_zones (filter (\<lambda>z. id' z \<noteq> zoneId) zs))) (snd (loadZones b)))
         \<and> fst (loadZones b) = VArr (stored_zones zs)
         \<and> (w \<longrightarrow> localStorage (snd (deleteZone w zoneId b)) STORAGE_KEY =
                   Some (JSON_stringify (encode_zones (filter (\<lambda>z. id' z \<noteq> zoneId) zs))))
         \<and> ((\<forall>z \<in> set zs. id' z \<noteq> zoneId) \<longrightarrow>
                fst (deleteZone w zoneId b) = Inr (fst (loadZones b))
                \<and> localStorage (snd (deleteZone w zoneId b)) = localStorage b)"
proof -
  let ?R = "VArr (stored_zones (filter (\<lambda>z. id' z \<noteq> zoneId) zs))"
  have l: "loadZones b = (VArr (stored_zones zs), b)" by (rule loadZones_stored [OF assms])
  have d: "deleteZone w zoneId b = (Inr ?R, saveZones w ?R b)"
    by (simp add: deleteZone_def l filter_zones_stored)
  have t: "localStorage (snd (deleteZone w zoneId b)) STORAGE_KEY =
           Some (JSON_stringify (encode_zones (filter (\<lambda>z. id' z \<noteq> zoneId) zs)))" if w
    unfolding d using that
    by (simp add: saveZones_def JSON_stringify_def jsonify_stored jsonify_encode_zones_stored
        del: jsonify.simps)
  have n: "fst (deleteZone w zoneId b) = Inr (fst (loadZones b))
           \<and> localStorage (snd (deleteZone w zoneId b)) = localStorage b"
    if "\<forall>z \<in> set zs. id' z \<noteq> zoneId"
  proof -
    have f: "filter (\<lambda>z. id' z \<noteq> zoneId) zs = zs" using that by (simp add: filter_id_conv)
    have "(localStorage b)(STORAGE_KEY \<mapsto> JSON_stringify (VArr (stored_zones zs))) = localStorage b"
      using assms
      by (simp add: JSON_stringify_def jsonify_stored jsonify_encode_zones_stored map_upd_triv
          del: jsonify.simps)
    then show ?thesis
      unfolding d f by (simp add: l saveZones_def)
  qed
  show ?thesis using d l t n by simp
qed

theorem deleteZone_spec_witness:
  "decode_zones (fst (loadZones (snd (deleteZone True ''1''
      (saveZones True (encode_zones [example_record ''1'', example_record ''2'']) empty_browser)))))
     = Some [example_record ''2'']
   \<and> localStorage (snd (deleteZone True ''3''
        (saveZones True (encode_zones [example_record ''1'', example_record ''2'']) empty_browser)))
     = localStorage (saveZones True (encode_zones [example_record ''1'', example_record ''2'']) empty_browser)"
proof -
  let ?zs = "[example_record ''1'', example_record ''2'']"
  let ?b = "saveZones True (encode_zones ?zs) empty_browser"
  have s: "localStorage ?b STORAGE_KEY = Some (JSON_stringify (encode_zones ?zs))"
    by (simp add: saveZones_def)
  have f: "filter (\<lambda>z. id' z \<noteq> ''1'') ?zs = [example_record ''2'']"
    by (simp add: example_record_def)
  have g: "\<forall>z \<in> set ?zs. id' z \<noteq> ''3''"
    by (simp add: example_record_def)
  have e: "finite_coords (example_record ''2'')"
    by (simp add: finite_coords_def example_record_def is_finite_def)
  have "localStorage (snd (deleteZone True ''1'' ?b)) STORAGE_KEY =
          Some (JSON_stringify (encode_zones [example_record ''2'']))"
    using deleteZone_spec [OF s, of True "''1''"] unfolding f by blast
  then have "fst (loadZones (snd (deleteZone True ''1'' ?b))) = jsonify (encode_zones [example_record ''2''])"
    by (simp add: loadZones_def JSON_stringify_def JSON_parse_def truthy_text_def)
  then have "decode_zones (fst (loadZones (snd (deleteZone True ''1'' ?b)))) = Some [example_record ''2'']"
    using e by (simp add: jsonify_encode_zones decode_encode_zones)
  moreover have "localStorage (snd (deleteZone True ''3'' ?b)) = localStorage ?b"
    using deleteZone_spec [OF s, of True "''3''"] g by blast
  ultimately show ?thesis by simp
qed






text \<open>
  C6.  When the zones entry is missing, or holds a text that cannot be decoded, \<^verbatim>\<open>loadZones\<close>
  returns the empty list and leaves the store as it is; a text that could not be decoded is
  reported on the console and nowhere else.
\<close>

theorem loadZones_missing_or_corrupt:
  assumes "localStorage b STORAGE_KEY = None
           \<or> (\<exists>t. localStorage b STORAGE_KEY = Some t \<and> JSON_parse t = None)"
  shows "fst (loadZones b) = VArr []
         \<and> localStorage (snd (loadZones b)) = localStorage b
         \<and> alerts (snd (loadZones b)) = alerts b
         \<and> (console (snd (loadZones b)) = console b
            \<or> console (snd (loadZones b)) = console b @ [''Error loading zones:''])
         \<and> (\<forall>str. localStorage b STORAGE_KEY = Some (Malformed str) \<and> str \<noteq> []
              \<longrightarrow> console (snd (loadZones b)) = console b @ [''Error loading zones:''])"
  using assms
proof
  assume "localStorage b STORAGE_KEY = None"
  then show ?thesis by (simp add: loadZones_missing)
next
  assume "\<exists>t. localStorage b STORAGE_KEY = Some t \<and> JSON_parse t = None"
  then obtain str where "localStorage b STORAGE_KEY = Some (Malformed str)"
    by (auto simp: JSON_parse_None)
  then show ?thesis by (simp add: loadZones_corrupt)
qed

theorem loadZones_missing_or_corrupt_witness:
  "fst (loadZones empty_browser) = VArr []
   \<and> fst (loadZones (empty_browser\<lparr>localStorage := [STORAGE_KEY \<mapsto> Malformed ''[{oops'']\<rparr>)) = VArr []
   \<and> console (snd (loadZones (empty_browser\<lparr>localStorage := [STORAGE_KEY \<mapsto> Malformed ''[{oops'']\<rparr>)))
       = [''Error loading zones:'']"
  using loadZones_missing_or_corrupt [of empty_browser]
    loadZones_missing_or_corrupt
      [of "empty_browser\<lparr>localStorage := [STORAGE_KEY \<mapsto> Malformed ''[{oops'']\<rparr>"]
  by (simp add: empty_browser_def JSON_parse_def)





text \<open>
  C9.  In a reachable state with a selected zone, saving the attribute edit keeps the
  length and the order of the registry, and the id, the creation time, the vertices and the
  polygon of every zone; a zone with another id is untouched, and the zone with the selected
  id differs from what it was in name, description, colour and update time only, which are
  those of the form and the time of saving.
\<close>

theorem saveZone_frame:
  assumes "reachable s" and "selectedZone s = Some sel"
  shows "length (zones (saveZone w stamp s)) = length (zones s)
         \<and> (\<forall>i < length (zones s).
               id' (zones (saveZone w stamp s) ! i) = id' (zones s ! i)
               \<and> createdAt (zones (saveZone w stamp s) ! i) = createdAt (zones s ! i)
               \<and> coordinates (zones (saveZone w stamp s) ! i) = coordinates (zones s ! i)
               \<and> polygon (zones (saveZone w stamp s) ! i) = polygon (zones s ! i)
               \<and> (id' (zones s ! i) \<noteq> id' sel \<longrightarrow> zones (saveZone w stamp s) ! i = zones s ! i)
               \<and> (id' (zones s ! i) = id' sel \<longrightarrow>
                    zones (saveZone w stamp s) ! i =
                      (zones s ! i)\<lparr>name := form_name (editForm s),
                                     description := form_description (editForm s),
                                     color := form_color (editForm s),
                                     updatedAt := stamp\<rparr>))"
proof -
  have "inv_at (Suc (clock s)) s" using assms(1) by (rule reachable_inv)
  then have "\<forall>z \<in> set (zones s). id' z = id' sel \<longrightarrow> z = sel"
    using assms(2) unfolding inv_at_def by blast
  then show ?thesis by (rule saveZone_frame_general [OF assms(2)])
qed

theorem saveZone_frame_witness:
  "zones (saveZone True ''t7'' session6) ! 0 = zones session6 ! 0
   \<and> zones (saveZone True ''t7'' session6) ! 1 =
       (zones session6 ! 1)\<lparr>name := ''Renamed'', description := ''d'', color := ''#00FF00'',
                              updatedAt := ''t7''\<rparr>
   \<and> coordinates (zones (saveZone True ''t7'' session6) ! 1) = coordinates (zones session6 ! 1)
   \<and> length (zones (saveZone True ''t7'' session6)) = 2"
proof -
  note f = saveZone_frame [OF reachable_session6 session6_facts(2), of True "''t7''"]
  have l: "length (zones (saveZone True ''t7'' session6)) = 2" using f session6_facts(1) by simp
  have "(0::nat) < length (zones session6)" "(1::nat) < length (zones session6)"
    using session6_facts(1) by simp_all
  then have z: "zones (saveZone True ''t7'' session6) ! 0 = zones session6 ! 0"
    and o: "zones (saveZone True ''t7'' session6) ! 1 =
       (zones session6 ! 1)\<lparr>name := form_name (editForm session6),
          description := form_description (editForm session6),
          color := form_color (editForm session6), updatedAt := ''t7''\<rparr>"
    and c: "coordinates (zones (saveZone True ''t7'' session6) ! 1) = coordinates (zones session6 ! 1)"
    using f session6_facts(3,4) by auto
  show ?thesis using l z o c by (simp add: session6_facts(5) renamed_form_def)
qed



end
